(* ===== verification/Prelude.thy ===== *)
theory Prelude
  imports Main "HOL-Library.Word"
begin

text \<open>
  Shared vocabulary of the m4 development: the C types of \<^verbatim>\<open>src/m4.c\<close>
  (\<open>size_t\<close> as a 64-bit word, \<open>char\<close> as a byte that is signed when promoted
  to \<open>int\<close>), the size-overflow tests \<^verbatim>\<open>AOF\<close> and \<^verbatim>\<open>MOF\<close> with
  their exact arithmetic meaning, the \<^verbatim>\<open><ctype.h>\<close> classes in the C
  locale, and the collections of facts the component theories share.
\<close>

unbundle bit_operations_syntax

named_theorems m4_eval \<open>equations that evaluate the model on concrete inputs\<close>

type_synonym size_t = "64 word"
type_synonym byte = char

subsection \<open>Integer limits and overflow tests\<close>

definition SIZE_MAX :: size_t where
  "SIZE_MAX = - 1"

text \<open>\<^verbatim>\<open>#define AOF(a, b) ((a) > SIZE_MAX - (b))\<close>\<close>
definition AOF :: "size_t \<Rightarrow> size_t \<Rightarrow> bool" where
  "AOF a b \<longleftrightarrow> a > SIZE_MAX - b"

text \<open>\<^verbatim>\<open>#define MOF(a, b) ((a) && (b) > SIZE_MAX / (a))\<close>\<close>
definition MOF :: "size_t \<Rightarrow> size_t \<Rightarrow> bool" where
  "MOF a b \<longleftrightarrow> a \<noteq> 0 \<and> b > SIZE_MAX div a"

text \<open>The \<^verbatim>\<open>EOF\<close> value returned by \<^verbatim>\<open>getchar\<close> and \<^verbatim>\<open>getch\<close>.\<close>
definition EOF :: int where
  "EOF = -1"

subsection \<open>Bytes and their promotion to int\<close>

text \<open>
  A \<^verbatim>\<open>char\<close> read back from a buffer is promoted to \<^verbatim>\<open>int\<close> as a signed
  byte (x86-64 and most Unix ABIs), while \<^verbatim>\<open>getchar\<close> returns the byte as an
  unsigned value. Storing an \<^verbatim>\<open>int\<close> into a \<^verbatim>\<open>char\<close> keeps its low 8 bits.
\<close>

definition schar :: "byte \<Rightarrow> int" where
  "schar c = (let n = int (of_char c) in if n < 128 then n else n - 256)"

definition uchar :: "byte \<Rightarrow> int" where
  "uchar c = int (of_char c)"

definition to_char :: "int \<Rightarrow> byte" where
  "to_char x = char_of (nat (x mod 256))"

subsection \<open>Character classes of the C locale\<close>

definition is_digit :: "byte \<Rightarrow> bool" where
  "is_digit c \<longleftrightarrow> 48 \<le> (of_char c :: nat) \<and> (of_char c :: nat) \<le> 57"

definition is_alpha :: "byte \<Rightarrow> bool" where
  "is_alpha c \<longleftrightarrow> (97 \<le> (of_char c :: nat) \<and> (of_char c :: nat) \<le> 122)
     \<or> (65 \<le> (of_char c :: nat) \<and> (of_char c :: nat) \<le> 90)"

definition is_alnum :: "byte \<Rightarrow> bool" where
  "is_alnum c \<longleftrightarrow> is_alpha c \<or> is_digit c"

definition is_graph :: "byte \<Rightarrow> bool" where
  "is_graph c \<longleftrightarrow> 33 \<le> (of_char c :: nat) \<and> (of_char c :: nat) \<le> 126"

text \<open>Value of a decimal digit character, \<^verbatim>\<open>ch - '0'\<close>.\<close>
definition digit_val :: "byte \<Rightarrow> nat" where
  "digit_val c = of_char c - 48"

lemmas ctype_defs = is_digit_def is_alpha_def is_alnum_def is_graph_def

subsection \<open>Facts about the overflow tests\<close>

lemma unat_SIZE_MAX [simp]: "unat SIZE_MAX = 2 ^ 64 - 1"
  by (simp add: SIZE_MAX_def unsigned_minus_1_eq_mask mask_eq_exp_minus_1)

lemma unat_size_t_less: "unat (w :: size_t) < 2 ^ 64"
  using unsigned_less [of w] by simp

lemma unat_of_nat_size_t: "n < 2 ^ 64 \<Longrightarrow> unat (word_of_nat n :: size_t) = n"
  by (simp add: unat_of_nat)

lemma word_of_nat_unat_size_t [simp]: "word_of_nat (unat w) = (w :: size_t)"
  by simp

lemma AOF_iff: "AOF a b \<longleftrightarrow> 2 ^ 64 \<le> unat a + unat b"
proof -
  have "unat (SIZE_MAX - b) = unat SIZE_MAX - unat b"
    by (rule unat_sub) (simp add: SIZE_MAX_def)
  then have "unat (SIZE_MAX - b) = 2 ^ 64 - 1 - unat b"
    by simp
  moreover have "unat b < 2 ^ 64" by (rule unat_size_t_less)
  ultimately show ?thesis
    by (simp add: AOF_def word_less_nat_alt) linarith
qed

lemma MOF_iff: "MOF a b \<longleftrightarrow> 2 ^ 64 \<le> unat a * unat b"
proof (cases "a = 0")
  case True
  then show ?thesis by (simp add: MOF_def)
next
  case False
  then have pos: "0 < unat a" by (simp add: unat_gt_0)
  have "unat (SIZE_MAX div a) = (2 ^ 64 - 1) div unat a"
    by (simp add: unat_div)
  then have "b > SIZE_MAX div a \<longleftrightarrow> (2 ^ 64 - 1) div unat a < unat b"
    by (simp add: word_less_nat_alt)
  also have "\<dots> \<longleftrightarrow> 2 ^ 64 - 1 < unat a * unat b"
    using pos by (simp add: div_less_iff_less_mult mult.commute)
  also have "\<dots> \<longleftrightarrow> 2 ^ 64 \<le> unat a * unat b"
    using zero_less_power [of "2::nat" 64] by linarith
  finally show ?thesis using False by (simp add: MOF_def)
qed

lemma unat_add_no_AOF: "\<not> AOF a b \<Longrightarrow> unat (a + b) = unat a + unat b"
  by (simp add: AOF_iff flip: unat_add_lem)

lemma unat_mult_no_MOF: "\<not> MOF a b \<Longrightarrow> unat (a * b) = unat a * unat b"
  by (simp add: MOF_iff flip: unat_mult_lem)

subsection \<open>Facts about bytes\<close>

lemma to_char_uchar [simp]: "to_char (uchar c) = c"
  by (simp add: to_char_def uchar_def)

lemma to_char_schar [simp]: "to_char (schar c) = c"
proof -
  have "schar c mod 256 = int (of_char c)"
    using nat_of_char_less_256 [of c] by (simp add: schar_def Let_def)
  then show ?thesis by (simp add: to_char_def)
qed

lemma schar_EOF_iff: "schar c = EOF \<longleftrightarrow> of_char c = (255 :: nat)"
  by (auto simp add: schar_def EOF_def Let_def)

lemma of_char_eq_255_iff [simp]: "(of_char c = (255 :: nat)) \<longleftrightarrow> c = CHR 0xFF"
proof
  assume "of_char c = (255 :: nat)"
  then have "of_char c = (of_char (CHR 0xFF) :: nat)" by simp
  then show "c = CHR 0xFF" by (simp only: of_char_eq_iff)
next
  assume "c = CHR 0xFF"
  then show "of_char c = (255 :: nat)" by simp
qed

lemma uchar_not_EOF [simp]: "uchar c \<noteq> EOF"
  by (simp add: uchar_def EOF_def)

lemma uchar_not_minus1 [simp]: "uchar c \<noteq> - 1"
  by (simp add: uchar_def)

lemma uchar_eq_0_iff [simp]: "uchar c = 0 \<longleftrightarrow> c = CHR 0x00"
proof -
  have "uchar c = 0 \<longleftrightarrow> (of_char c :: nat) = of_char (CHR 0x00)"
    by (simp add: uchar_def)
  then show ?thesis by (simp only: of_char_eq_iff)
qed

subsection \<open>Evaluation\<close>

lemma upt_eval [m4_eval]:
  "[0..<10] = [0, 1, 2, 3, 4, 5, 6, 7, 8, 9]"
  "[1..<10] = [1, 2, 3, 4, 5, 6, 7, 8, 9]"
  "[2..<10] = [2, 3, 4, 5, 6, 7, 8, 9]"
  "[Suc 0..<10] = [1, 2, 3, 4, 5, 6, 7, 8, 9]"
  "[Suc (Suc 0)..<10] = [2, 3, 4, 5, 6, 7, 8, 9]"
  by (simp_all add: upt_rec)

lemma list_update_Cons_numeral [m4_eval]: "(x # xs)[numeral k := v] = x # xs[pred_numeral k := v]"
  by (simp add: numeral_eq_Suc)

lemma replicate_numeral_eval [m4_eval]: "replicate (numeral k) x = x # replicate (pred_numeral k) x"
  by (simp add: numeral_eq_Suc)

declare SIZE_MAX_def [m4_eval] AOF_def [m4_eval] MOF_def [m4_eval] ctype_defs [m4_eval]
  digit_val_def [m4_eval] schar_EOF_iff [m4_eval] char_of_eq_iff [m4_eval] Let_def [m4_eval]

end
