(* ===== verification/Numeric.thy ===== *)
theory Numeric
  imports Prelude
begin

text \<open>
  Decimal conversions of \<^verbatim>\<open>src/m4.c\<close>: \<^verbatim>\<open>str_to_num\<close>, which parses an
  unsigned decimal into a \<open>size_t\<close> and fails on any non-digit, on the empty
  string and on overflow (tested with \<^verbatim>\<open>MOF\<close>/\<^verbatim>\<open>AOF\<close> before every step),
  and the \<^verbatim>\<open>snprintf(num, NUM_SIZE, "%lu", ...)\<close> printing used by
  \<^verbatim>\<open>len\<close>, \<^verbatim>\<open>index\<close>, \<^verbatim>\<open>divnum\<close>, \<^verbatim>\<open>incr\<close> and the arithmetic
  built-ins. The main results: \<open>str_to_num\<close> returns exactly the decimal value of
  a digit string when that value fits in 64 bits and fails otherwise, and parsing
  a printed number gives it back.
\<close>

subsection \<open>Parsing: str_to_num\<close>

text \<open>The loop body of \<^verbatim>\<open>str_to_num\<close>: \<^verbatim>\<open>n *= 10; n += (ch - '0')\<close>, each
  step guarded by its overflow test.\<close>

fun str_to_num_loop :: "size_t \<Rightarrow> byte list \<Rightarrow> size_t option" where
  "str_to_num_loop n [] = Some n"
| "str_to_num_loop n (ch # s) =
     (if is_digit ch then
        (if MOF n 10 then None
         else let n' = n * 10; d = word_of_nat (digit_val ch) in
           if AOF n' d then None else str_to_num_loop (n' + d) s)
      else None)"

text \<open>\<^verbatim>\<open>int str_to_num(char *s, size_t *num)\<close>: \<open>None\<close> is the return value 1.\<close>
definition str_to_num :: "byte list \<Rightarrow> size_t option" where
  "str_to_num s = (if s = [] then None else str_to_num_loop 0 s)"

text \<open>The mathematical value of a string of decimal digits.\<close>
definition dec_val :: "byte list \<Rightarrow> nat" where
  "dec_val s = foldl (\<lambda>n c. 10 * n + digit_val c) 0 s"

definition all_digits :: "byte list \<Rightarrow> bool" where
  "all_digits s \<longleftrightarrow> list_all is_digit s"

subsection \<open>Printing: the \<^verbatim>\<open>%lu\<close> conversion\<close>

definition digit_char :: "nat \<Rightarrow> byte" where
  "digit_char d = char_of (48 + d)"

fun dec_str :: "nat \<Rightarrow> byte list" where
  "dec_str n = (if n < 10 then [digit_char n] else dec_str (n div 10) @ [digit_char (n mod 10)])"

declare dec_str.simps [simp del]

text \<open>\<^verbatim>\<open>snprintf(num, NUM_SIZE, "%lu", (unsigned long) n)\<close>: the decimal digits of
  the value, without truncation (a 64-bit value has at most 20 digits and
  \<^verbatim>\<open>NUM_SIZE\<close> is 24).\<close>
definition fmt_lu :: "size_t \<Rightarrow> byte list" where
  "fmt_lu n = dec_str (unat n)"

text \<open>\<^verbatim>\<open>snprintf(num, NUM_SIZE, "%d", -1)\<close>\<close>
definition fmt_minus1 :: "byte list" where
  "fmt_minus1 = ''-1''"

subsection \<open>Correctness of the parser\<close>

lemma digit_val_less: "is_digit c \<Longrightarrow> digit_val c < 10"
  unfolding is_digit_def digit_val_def by linarith

lemma foldl_dec_ge: "n \<le> foldl (\<lambda>n c. 10 * n + digit_val c) n s"
proof (induction s arbitrary: n)
  case Nil
  then show ?case by simp
next
  case (Cons c s)
  have "n \<le> 10 * n + digit_val c" by simp
  also have "\<dots> \<le> foldl (\<lambda>n c. 10 * n + digit_val c) (10 * n + digit_val c) s"
    by (rule Cons.IH)
  finally show ?case by simp
qed

text \<open>The loop started from any accumulator: the overflow tests fire exactly when the
  final value does not fit, because the value only grows along the string.\<close>

lemma str_to_num_loop_eq:
  "str_to_num_loop n s =
     (let v = foldl (\<lambda>n c. 10 * n + digit_val c) (unat n) s in
      if all_digits s \<and> v < 2 ^ 64 then Some (word_of_nat v) else None)"
proof (induction s arbitrary: n)
  case Nil
  show ?case using unat_size_t_less [of n] by (simp add: all_digits_def Let_def)
next
  case (Cons c s)
  define f where "f = (\<lambda>n c. 10 * n + digit_val c)"
  show ?case
  proof (cases "is_digit c")
    case False
    then show ?thesis by (simp add: all_digits_def)
  next
    case dig: True
    have dlt: "digit_val c < 10" using dig by (rule digit_val_less)
    have ge: "10 * unat n + digit_val c \<le> foldl f (10 * unat n + digit_val c) s"
      unfolding f_def by (rule foldl_dec_ge)
    show ?thesis
    proof (cases "MOF n 10")
      case mof: True
      then have "2 ^ 64 \<le> 10 * unat n" by (simp add: MOF_iff mult.commute)
      with ge dig mof show ?thesis by (simp add: all_digits_def f_def Let_def)
    next
      case noM: False
      then have m: "unat (n * 10) = 10 * unat n" by (simp add: unat_mult_no_MOF)
      have ud: "unat (word_of_nat (digit_val c) :: size_t) = digit_val c"
        using dlt by (simp add: unat_of_nat_size_t)
      show ?thesis
      proof (cases "AOF (n * 10) (word_of_nat (digit_val c))")
        case aof: True
        then have "2 ^ 64 \<le> 10 * unat n + digit_val c" by (simp add: AOF_iff m ud)
        with ge dig noM aof show ?thesis by (simp add: all_digits_def f_def Let_def)
      next
        case False
        then have "unat (n * 10 + word_of_nat (digit_val c)) = 10 * unat n + digit_val c"
          by (simp add: unat_add_no_AOF m ud)
        with Cons.IH [of "n * 10 + word_of_nat (digit_val c)"] dig noM False
        show ?thesis by (simp add: all_digits_def f_def Let_def)
      qed
    qed
  qed
qed

text \<open>C6: \<^verbatim>\<open>str_to_num\<close> succeeds exactly on a non-empty string of decimal
  digits whose value is below \<open>2^64\<close>, and then returns that value; it fails on
  the empty string, on any other byte and on every value that does not fit in
  \<^verbatim>\<open>size_t\<close>.\<close>
theorem str_to_num_eq:
  "str_to_num s =
     (if s \<noteq> [] \<and> all_digits s \<and> dec_val s < 2 ^ 64
      then Some (word_of_nat (dec_val s)) else None)"
  by (simp add: str_to_num_def str_to_num_loop_eq dec_val_def Let_def)

lemma str_to_num_Some_unat: "str_to_num s = Some n \<Longrightarrow> unat n = dec_val s"
  by (auto simp add: str_to_num_def str_to_num_loop_eq dec_val_def Let_def unat_of_nat_size_t
      split: if_splits)

subsection \<open>Printing and parsing are inverse\<close>

lemma is_digit_digit_char: "d < 10 \<Longrightarrow> is_digit (digit_char d)"
  by (simp add: is_digit_def digit_char_def)

lemma digit_val_digit_char: "d < 10 \<Longrightarrow> digit_val (digit_char d) = d"
  by (simp add: digit_val_def digit_char_def)

lemma dec_str_props: "dec_str n \<noteq> [] \<and> all_digits (dec_str n) \<and> dec_val (dec_str n) = n"
proof (induction n rule: dec_str.induct)
  case (1 n)
  show ?case
  proof (cases "n < 10")
    case True
    then show ?thesis
      by (simp add: dec_str.simps [of n] all_digits_def dec_val_def
          is_digit_digit_char digit_val_digit_char)
  next
    case False
    with "1.IH" have ih: "all_digits (dec_str (n div 10)) \<and> dec_val (dec_str (n div 10)) = n div 10"
      by simp
    then show ?thesis using False
      by (simp add: dec_str.simps [of n] all_digits_def dec_val_def
          is_digit_digit_char digit_val_digit_char)
  qed
qed

text \<open>C30: parsing the \<^verbatim>\<open>%lu\<close> rendering of any \<open>size_t\<close> value gives the
  value back: the numbers the built-ins push back are read again unchanged.\<close>
theorem str_to_num_fmt_lu: "str_to_num (fmt_lu w) = Some w"
proof -
  have p: "dec_str (unat w) \<noteq> [] \<and> all_digits (dec_str (unat w)) \<and> dec_val (dec_str (unat w)) = unat w"
    by (rule dec_str_props)
  have "unat w < 2 ^ 64" by (rule unat_size_t_less)
  with p show ?thesis
    by (simp add: fmt_lu_def str_to_num_def str_to_num_loop_eq dec_val_def Let_def)
qed

declare str_to_num_def [m4_eval] fmt_lu_def [m4_eval] dec_str.simps [m4_eval]
  digit_char_def [m4_eval] fmt_minus1_def [m4_eval]

end
