(* ===== verification/SymTab.thy ===== *)
theory SymTab
  imports Numeric
begin

text \<open>
  The symbol table of \<^verbatim>\<open>src/m4.c\<close> (\<^verbatim>\<open>struct entry\<close>,
  \<^verbatim>\<open>hash_str\<close>, \<^verbatim>\<open>lookup_entry\<close>, \<^verbatim>\<open>get_def\<close>, \<^verbatim>\<open>upsert_entry\<close>,
  \<^verbatim>\<open>delete_entry\<close>, \<^verbatim>\<open>htdist\<close>): 16384 buckets, each a singly linked chain,
  here a list whose head is the chain head. The table is a function from bucket index to
  chain; only indices below \<open>HASH_TABLE_SIZE\<close> are ever read or written. A
  definition of \<open>None\<close> marks a built-in macro.

  The abstract view \<open>sym_map\<close> is the partial map from names to definitions that
  \<^verbatim>\<open>lookup_entry\<close> implements. \<open>upsert_entry\<close> refines map update
  unconditionally; \<open>delete_entry\<close> refines map deletion only when the deleted
  entry is not the head of its chain: at the head, the source writes \<^verbatim>\<open>NULL\<close> into
  the bucket and so drops every other entry of that chain.
\<close>

record entry =
  ename :: "byte list"
  edef :: "byte list option"

type_synonym htable = "nat \<Rightarrow> entry list"

definition HASH_TABLE_SIZE :: nat where
  "HASH_TABLE_SIZE = 16384"

subsection \<open>Hashing\<close>

text \<open>djb2 over \<open>size_t\<close>: \<^verbatim>\<open>h = h * 33 ^ c\<close> wraps modulo \<open>2^64\<close>.\<close>

fun djb2 :: "size_t \<Rightarrow> byte list \<Rightarrow> size_t" where
  "djb2 h [] = h"
| "djb2 h (c # s) = djb2 (h * 33 XOR word_of_nat (of_char c)) s"

definition hash_str :: "byte list \<Rightarrow> nat" where
  "hash_str s = unat (djb2 5381 s) mod HASH_TABLE_SIZE"

subsection \<open>Operations\<close>

definition empty_ht :: htable where
  "empty_ht = (\<lambda>_. [])"

text \<open>\<^verbatim>\<open>lookup_entry\<close>: the first entry of the bucket's chain with that name.\<close>
definition lookup_entry :: "htable \<Rightarrow> byte list \<Rightarrow> entry option" where
  "lookup_entry ht name = find (\<lambda>e. ename e = name) (ht (hash_str name))"

text \<open>\<^verbatim>\<open>get_def\<close>: \<^verbatim>\<open>NULL\<close> both for an unknown name and for a built-in.\<close>
definition get_def :: "htable \<Rightarrow> byte list \<Rightarrow> byte list option" where
  "get_def ht name = (case lookup_entry ht name of None \<Rightarrow> None | Some e \<Rightarrow> edef e)"

text \<open>Replacing the definition of the first entry named \<open>name\<close> (the update branch
  of \<^verbatim>\<open>upsert_entry\<close>).\<close>
fun chain_set_def :: "byte list \<Rightarrow> byte list option \<Rightarrow> entry list \<Rightarrow> entry list" where
  "chain_set_def name d [] = []"
| "chain_set_def name d (e # es) =
     (if ename e = name then e\<lparr>edef := d\<rparr> # es else e # chain_set_def name d es)"

definition upsert_entry :: "htable \<Rightarrow> byte list \<Rightarrow> byte list option \<Rightarrow> htable" where
  "upsert_entry ht name d =
     (let h = hash_str name in
      case lookup_entry ht name of
        None \<Rightarrow> ht(h := \<lparr>ename = name, edef = d\<rparr> # ht h)
      | Some _ \<Rightarrow> ht(h := chain_set_def name d (ht h)))"

text \<open>Linking around a matched entry that has a predecessor
  (\<^verbatim>\<open>prev->next = e->next\<close>); \<open>None\<close> when no entry matches.\<close>
fun chain_unlink :: "byte list \<Rightarrow> entry list \<Rightarrow> entry list option" where
  "chain_unlink name [] = None"
| "chain_unlink name (e # es) =
     (if ename e = name then Some es else map_option (Cons e) (chain_unlink name es))"

text \<open>\<^verbatim>\<open>delete_entry\<close>: \<open>None\<close> is the return value 1 (not found). A match at the
  head of the chain (\<^verbatim>\<open>prev == NULL\<close>) sets the bucket to \<^verbatim>\<open>NULL\<close>.\<close>
definition delete_entry :: "htable \<Rightarrow> byte list \<Rightarrow> htable option" where
  "delete_entry ht name =
     (let h = hash_str name in
      case ht h of
        [] \<Rightarrow> None
      | e # es \<Rightarrow>
          (if ename e = name then Some (ht(h := []))
           else map_option (\<lambda>es'. ht(h := e # es')) (chain_unlink name es)))"

text \<open>\<^verbatim>\<open>htdist\<close>: the loop over the buckets that counts each chain and increments
  \<^verbatim>\<open>freq[count]\<close>, or \<^verbatim>\<open>freq[100]\<close> for 100 entries and more.\<close>
definition htdist_count :: "htable \<Rightarrow> nat list" where
  "htdist_count ht =
     fold (\<lambda>k freq. let count = length (ht k) in
                      if count < 100 then freq[count := freq ! count + 1]
                      else freq[100 := freq ! 100 + 1])
          [0..<HASH_TABLE_SIZE] (replicate 101 0)"

text \<open>The histogram written to standard error.\<close>
definition htdist :: "htable \<Rightarrow> byte list" where
  "htdist ht =
     (let freq = htdist_count ht in
      ''entries_per_bucket number_of_buckets'' @ [CHR 0x0A] @
      concat (map (\<lambda>k. if freq ! k \<noteq> 0
                        then dec_str k @ '' '' @ dec_str (freq ! k) @ [CHR 0x0A] else [])
                  [0..<100]) @
      (if freq ! 100 \<noteq> 0 then ''>=100 '' @ dec_str (freq ! 100) @ [CHR 0x0A] else []))"

text \<open>What the histogram counts: the buckets whose chain has length \<open>j\<close> (\<open>j < 100\<close>)
  or at least 100 (\<open>j = 100\<close>).\<close>
definition htdist_freq :: "htable \<Rightarrow> nat \<Rightarrow> nat" where
  "htdist_freq ht j = length (filter (\<lambda>k. min (length (ht k)) 100 = j) [0..<HASH_TABLE_SIZE])"

text \<open>The built-in macros registered by \<^verbatim>\<open>main\<close>, in order, each with a
  \<^verbatim>\<open>NULL\<close> definition (\<^verbatim>\<open>ESYSCMD_MAKETEMP\<close> is 0).\<close>
definition builtin_names :: "byte list list" where
  "builtin_names = [''define'', ''undefine'', ''changequote'', ''divert'', ''dumpdef'',
     ''errprint'', ''ifdef'', ''ifelse'', ''include'', ''len'', ''index'', ''translit'',
     ''substr'', ''dnl'', ''divnum'', ''undivert'', ''incr'', ''htdist'', ''dirsep'',
     ''add'', ''mult'', ''sub'', ''div'', ''mod'']"

definition init_ht :: htable where
  "init_ht = fold (\<lambda>n ht. upsert_entry ht n None) builtin_names empty_ht"

subsection \<open>Abstract view and invariant\<close>

definition sym_map :: "htable \<Rightarrow> byte list \<rightharpoonup> byte list option" where
  "sym_map ht name = map_option edef (lookup_entry ht name)"

text \<open>Every chain holds only names that hash to its bucket, each at most once.\<close>
definition ht_ok :: "htable \<Rightarrow> bool" where
  "ht_ok ht \<longleftrightarrow>
     (\<forall>k \<in> set [0..<HASH_TABLE_SIZE].
        list_all (\<lambda>e. hash_str (ename e) = k) (ht k) \<and> distinct (map ename (ht k)))"

text \<open>The chain head named \<open>name\<close>: the case where \<open>delete_entry\<close> clears the bucket.\<close>
definition is_chain_head :: "htable \<Rightarrow> byte list \<Rightarrow> bool" where
  "is_chain_head ht name \<longleftrightarrow>
     (case ht (hash_str name) of [] \<Rightarrow> False | e # _ \<Rightarrow> ename e = name)"

subsection \<open>Chain lemmas\<close>

lemma htdist_fold:
  "length freq = 101 \<Longrightarrow> j \<le> 100 \<Longrightarrow>
   length (fold (\<lambda>k freq. let count = length (ht k) in
                            if count < 100 then freq[count := freq ! count + 1]
                            else freq[100 := freq ! 100 + 1]) ks freq) = 101 \<and>
   fold (\<lambda>k freq. let count = length (ht k) in
                    if count < 100 then freq[count := freq ! count + 1]
                    else freq[100 := freq ! 100 + 1]) ks freq ! j
     = freq ! j + length (filter (\<lambda>k. min (length (ht k)) 100 = j) ks)"
  by (induction ks arbitrary: freq) (auto simp add: Let_def nth_list_update min_def)

text \<open>The counting loop of \<^verbatim>\<open>htdist\<close> computes the histogram: entry \<open>j\<close> is the
  number of buckets whose chain has length \<open>j\<close>, entry 100 those with 100 or more.\<close>
lemma htdist_count_eq: "j \<le> 100 \<Longrightarrow> htdist_count ht ! j = htdist_freq ht j"
  using htdist_fold [of "replicate 101 0" j ht "[0..<HASH_TABLE_SIZE]"]
  by (simp add: htdist_count_def htdist_freq_def)

lemma hash_str_less [simp]: "hash_str s < HASH_TABLE_SIZE"
  by (simp add: hash_str_def HASH_TABLE_SIZE_def)

lemma find_chain_set_def:
  "find (\<lambda>e. ename e = m) (chain_set_def n d es) =
     (if m = n then map_option (\<lambda>e. e\<lparr>edef := d\<rparr>) (find (\<lambda>e. ename e = n) es)
      else find (\<lambda>e. ename e = m) es)"
  by (induction es) auto

lemma names_chain_set_def [simp]: "map ename (chain_set_def n d es) = map ename es"
  by (induction es) auto

lemma chain_unlink_Some:
  "chain_unlink n es = Some es' \<Longrightarrow>
     \<exists>xs e ys. es = xs @ e # ys \<and> es' = xs @ ys \<and> ename e = n \<and> n \<notin> ename ` set xs"
proof (induction es arbitrary: es')
  case Nil
  then show ?case by simp
next
  case (Cons x es)
  show ?case
  proof (cases "ename x = n")
    case True
    with Cons.prems have "es' = es" by simp
    with True show ?thesis by (intro exI [of _ "[]"]) auto
  next
    case False
    with Cons.prems obtain es'' where r: "chain_unlink n es = Some es''" and e: "es' = x # es''"
      by auto
    from Cons.IH [OF r] obtain xs e ys where
      "es = xs @ e # ys" "es'' = xs @ ys" "ename e = n" "n \<notin> ename ` set xs" by blast
    with False e show ?thesis by (intro exI [of _ "x # xs"]) auto
  qed
qed

lemma chain_unlink_None_iff: "chain_unlink n es = None \<longleftrightarrow> find (\<lambda>e. ename e = n) es = None"
  by (induction es) auto

lemma find_name_Some: "find (\<lambda>e. ename e = n) es = Some e \<Longrightarrow> ename e = n"
  by (induction es) (auto split: if_splits)

lemma find_append_other:
  "ename e \<noteq> m \<Longrightarrow>
     find (\<lambda>x. ename x = m) (xs @ e # ys) = find (\<lambda>x. ename x = m) (xs @ ys)"
  by (induction xs) auto

lemma find_name_None: "n \<notin> ename ` set zs \<Longrightarrow> find (\<lambda>e. ename e = n) zs = None"
  by (induction zs) auto

subsection \<open>Refinement of the map operations\<close>

text \<open>C3: \<^verbatim>\<open>upsert_entry\<close> implements map update: after it, looking up the name
  gives the new definition and every other name keeps its lookup result; no invariant is
  needed.\<close>
theorem sym_map_upsert: "sym_map (upsert_entry ht n d) = (sym_map ht)(n \<mapsto> d)"
proof
  fix m
  show "sym_map (upsert_entry ht n d) m = ((sym_map ht)(n \<mapsto> d)) m"
  proof (cases "lookup_entry ht n")
    case None
    then show ?thesis
      by (auto simp add: sym_map_def upsert_entry_def lookup_entry_def Let_def)
  next
    case (Some e)
    then show ?thesis
      by (auto simp add: sym_map_def upsert_entry_def lookup_entry_def find_chain_set_def Let_def)
  qed
qed

lemma delete_entry_None_iff: "delete_entry ht n = None \<longleftrightarrow> sym_map ht n = None"
  by (auto simp add: delete_entry_def sym_map_def lookup_entry_def chain_unlink_None_iff Let_def
      split: list.splits)

lemma delete_entry_head:
  "is_chain_head ht n \<Longrightarrow> delete_entry ht n = Some (ht(hash_str n := []))"
  by (auto simp add: is_chain_head_def delete_entry_def Let_def split: list.splits)

lemma delete_entry_nonhead:
  assumes "\<not> is_chain_head ht n" and "delete_entry ht n = Some ht'"
  shows "\<exists>x xs e ys. ht (hash_str n) = x # xs @ e # ys \<and> ht' = ht(hash_str n := x # xs @ ys)
           \<and> ename x \<noteq> n \<and> ename e = n"
proof -
  from assms obtain x es es' where ch: "ht (hash_str n) = x # es" and x: "ename x \<noteq> n"
    and u: "chain_unlink n es = Some es'" and h': "ht' = ht(hash_str n := x # es')"
    by (auto simp add: is_chain_head_def delete_entry_def Let_def split: list.splits if_splits)
  from chain_unlink_Some [OF u] obtain xs e ys where
    "es = xs @ e # ys" "es' = xs @ ys" "ename e = n" by blast
  with ch x h' show ?thesis by blast
qed

subsection \<open>The invariant is kept\<close>

lemma ht_ok_bucket:
  "ht_ok ht \<Longrightarrow> (\<forall>e \<in> set (ht (hash_str n)). hash_str (ename e) = hash_str n)
     \<and> distinct (map ename (ht (hash_str n)))"
  by (simp add: ht_ok_def list_all_iff HASH_TABLE_SIZE_def [symmetric])

lemma ht_ok_update:
  "ht_ok ht \<Longrightarrow> \<forall>e \<in> set c. hash_str (ename e) = hash_str n \<Longrightarrow> distinct (map ename c)
     \<Longrightarrow> ht_ok (ht(hash_str n := c))"
  by (auto simp add: ht_ok_def list_all_iff)

lemma ht_ok_empty: "ht_ok empty_ht"
  by (simp add: ht_ok_def empty_ht_def)

lemma ht_ok_upsert: "ht_ok ht \<Longrightarrow> ht_ok (upsert_entry ht n d)"
proof -
  assume ok: "ht_ok ht"
  note b = ht_ok_bucket [OF ok, of n]
  show ?thesis
  proof (cases "lookup_entry ht n")
    case None
    then have "n \<notin> set (map ename (ht (hash_str n)))"
      by (auto simp add: lookup_entry_def find_None_iff)
    with b show ?thesis
      by (auto simp add: upsert_entry_def None Let_def intro!: ht_ok_update [OF ok])
  next
    case (Some e)
    let ?c = "chain_set_def n d (ht (hash_str n))"
    have img: "ename ` set ?c = ename ` set (ht (hash_str n))"
      by (metis names_chain_set_def set_map)
    have "\<forall>x \<in> set ?c. hash_str (ename x) = hash_str n"
    proof
      fix x
      assume "x \<in> set ?c"
      then have "ename x \<in> ename ` set (ht (hash_str n))" using img by blast
      then obtain y where "y \<in> set (ht (hash_str n))" and "ename x = ename y" by blast
      with b show "hash_str (ename x) = hash_str n" by simp
    qed
    with b show ?thesis
      by (auto simp add: upsert_entry_def Some Let_def intro!: ht_ok_update [OF ok])
  qed
qed

lemma ht_ok_delete: "ht_ok ht \<Longrightarrow> delete_entry ht n = Some ht' \<Longrightarrow> ht_ok ht'"
proof (cases "is_chain_head ht n")
  case True
  assume ok: "ht_ok ht" and d: "delete_entry ht n = Some ht'"
  with True have "ht' = ht(hash_str n := [])" by (simp add: delete_entry_head)
  then show ?thesis by (simp add: ht_ok_update [OF ok])
next
  case False
  assume ok: "ht_ok ht" and d: "delete_entry ht n = Some ht'"
  from delete_entry_nonhead [OF False d] obtain x xs e ys where
    ch: "ht (hash_str n) = x # xs @ e # ys" and h': "ht' = ht(hash_str n := x # xs @ ys)"
    by blast
  from ht_ok_bucket [OF ok, of n] ch show ?thesis
    by (simp add: h' ht_ok_update [OF ok])
qed

lemma ht_ok_fold_upsert: "ht_ok ht \<Longrightarrow> ht_ok (fold (\<lambda>n ht. upsert_entry ht n d) ns ht)"
  by (induction ns arbitrary: ht) (simp_all add: ht_ok_upsert)

lemma ht_ok_init: "ht_ok init_ht"
  by (simp add: init_ht_def ht_ok_fold_upsert ht_ok_empty)

text \<open>C4: \<^verbatim>\<open>delete_entry\<close> of a name that is in the table but not at the head
  of its chain implements map deletion: the name is gone and every other name keeps its
  lookup result.\<close>
theorem sym_map_delete_nonhead:
  assumes ok: "ht_ok ht" and nh: "\<not> is_chain_head ht n" and d: "delete_entry ht n = Some ht'"
  shows "sym_map ht' = (sym_map ht)(n := None)"
proof
  fix m
  from delete_entry_nonhead [OF nh d] obtain x xs e ys where
    ch: "ht (hash_str n) = x # xs @ e # ys" and h': "ht' = ht(hash_str n := x # xs @ ys)"
    and x: "ename x \<noteq> n" and e: "ename e = n"
    by blast
  have dist: "distinct (map ename (x # xs @ e # ys))"
    using ht_ok_bucket [OF ok, of n] ch by simp
  show "sym_map ht' m = ((sym_map ht)(n := None)) m"
  proof (cases "hash_str m = hash_str n")
    case False
    with h' show ?thesis by (auto simp add: sym_map_def lookup_entry_def)
  next
    case same: True
    show ?thesis
    proof (cases "m = n")
      case True
      with dist e x show ?thesis
        by (simp add: sym_map_def lookup_entry_def h') (rule find_name_None, auto)
    next
      case False
      with e same ch h' show ?thesis
        by (simp add: sym_map_def lookup_entry_def find_append_other [of e m xs])
    qed
  qed
qed

text \<open>C5: \<^verbatim>\<open>delete_entry\<close> of a name at the head of its chain empties the whole
  bucket: every other name that hashes to the same bucket is lost as well.\<close>
theorem sym_map_delete_head:
  "is_chain_head ht n \<Longrightarrow> delete_entry ht n = Some ht' \<Longrightarrow>
     sym_map ht' m = (if hash_str m = hash_str n then None else sym_map ht m)"
  by (auto simp add: delete_entry_head sym_map_def lookup_entry_def)

text \<open>The names \<open>a\<close> and \<open>axx\<close> share bucket 13764; after defining \<open>a\<close>
  then \<open>axx\<close> the chain is \<open>[axx, a]\<close>.\<close>
theorem sym_map_delete_nonhead_witness:
  "let T = upsert_entry (upsert_entry empty_ht ''a'' (Some ''1'')) ''axx'' (Some ''2'') in
   ht_ok T \<and> \<not> is_chain_head T ''a'' \<and> delete_entry T ''a'' \<noteq> None
   \<and> sym_map (the (delete_entry T ''a'')) = (sym_map T)(''a'' := None)"
proof -
  let ?T = "upsert_entry (upsert_entry empty_ht ''a'' (Some ''1'')) ''axx'' (Some ''2'')"
  have ok: "ht_ok ?T" by (intro ht_ok_upsert ht_ok_empty)
  have nh: "\<not> is_chain_head ?T ''a''" and d: "delete_entry ?T ''a'' \<noteq> None"
    by (simp_all add: m4_eval is_chain_head_def delete_entry_def upsert_entry_def
        lookup_entry_def hash_str_def HASH_TABLE_SIZE_def empty_ht_def)
  from d obtain T' where d': "delete_entry ?T ''a'' = Some T'" by blast
  show ?thesis using sym_map_delete_nonhead [OF ok nh d'] ok nh d' by simp
qed

theorem sym_map_delete_head_witness:
  "let T = upsert_entry (upsert_entry empty_ht ''a'' (Some ''1'')) ''axx'' (Some ''2'') in
   is_chain_head T ''axx'' \<and> delete_entry T ''axx'' \<noteq> None \<and> sym_map T ''a'' = Some (Some ''1'')
   \<and> sym_map (the (delete_entry T ''axx'')) ''a'' = None"
proof -
  let ?T = "upsert_entry (upsert_entry empty_ht ''a'' (Some ''1'')) ''axx'' (Some ''2'')"
  have facts: "is_chain_head ?T ''axx''" "delete_entry ?T ''axx'' \<noteq> None"
      "sym_map ?T ''a'' = Some (Some ''1'')" "hash_str ''a'' = hash_str ''axx''"
    by (simp_all add: m4_eval is_chain_head_def delete_entry_def upsert_entry_def sym_map_def
        lookup_entry_def hash_str_def HASH_TABLE_SIZE_def empty_ht_def)
  then obtain T' where d': "delete_entry ?T ''axx'' = Some T'" by blast
  show ?thesis using sym_map_delete_head [OF facts(1) d', of "''a''"] facts d' by simp
qed

subsection \<open>Evaluation\<close>

text \<open>The table after the 24 built-ins are registered: no two of them share a bucket.\<close>

lemma init_ht_eq [m4_eval]: "init_ht = empty_ht(
     3200 := [\<lparr>ename = ''define'', edef = None\<rparr>],
     4923 := [\<lparr>ename = ''undefine'', edef = None\<rparr>],
     11225 := [\<lparr>ename = ''changequote'', edef = None\<rparr>],
     8989 := [\<lparr>ename = ''divert'', edef = None\<rparr>],
     2062 := [\<lparr>ename = ''dumpdef'', edef = None\<rparr>],
     9329 := [\<lparr>ename = ''errprint'', edef = None\<rparr>],
     2925 := [\<lparr>ename = ''ifdef'', edef = None\<rparr>],
     14325 := [\<lparr>ename = ''ifelse'', edef = None\<rparr>],
     12057 := [\<lparr>ename = ''include'', edef = None\<rparr>],
     98 := [\<lparr>ename = ''len'', edef = None\<rparr>],
     10363 := [\<lparr>ename = ''index'', edef = None\<rparr>],
     5998 := [\<lparr>ename = ''translit'', edef = None\<rparr>],
     14260 := [\<lparr>ename = ''substr'', edef = None\<rparr>],
     7939 := [\<lparr>ename = ''dnl'', edef = None\<rparr>],
     11560 := [\<lparr>ename = ''divnum'', edef = None\<rparr>],
     7078 := [\<lparr>ename = ''undivert'', edef = None\<rparr>],
     13139 := [\<lparr>ename = ''incr'', edef = None\<rparr>],
     7475 := [\<lparr>ename = ''htdist'', edef = None\<rparr>],
     10492 := [\<lparr>ename = ''dirsep'', edef = None\<rparr>],
     12868 := [\<lparr>ename = ''add'', edef = None\<rparr>],
     3109 := [\<lparr>ename = ''mult'', edef = None\<rparr>],
     3361 := [\<lparr>ename = ''sub'', edef = None\<rparr>],
     7934 := [\<lparr>ename = ''div'', edef = None\<rparr>],
     995 := [\<lparr>ename = ''mod'', edef = None\<rparr>])"
  by (simp add: init_ht_def builtin_names_def upsert_entry_def lookup_entry_def hash_str_def
      HASH_TABLE_SIZE_def empty_ht_def)

declare lookup_entry_def [m4_eval] hash_str_def [m4_eval] HASH_TABLE_SIZE_def [m4_eval]
  empty_ht_def [m4_eval] upsert_entry_def [m4_eval] delete_entry_def [m4_eval]

end
