(* ===== verification/Input.thy ===== *)
theory Input
  imports Prelude
begin

text \<open>
  The input stream and tokenizer of \<^verbatim>\<open>src/m4.c\<close>. The pushback buffer
  \<^verbatim>\<open>input\<close> is a byte stack (\<^verbatim>\<open>getch\<close> pops \<^verbatim>\<open>b->a[--b->i]\<close>);
  here it is the list of bytes in reading order, so that \<^verbatim>\<open>ungetch\<close> is
  \<open>Cons\<close> and \<^verbatim>\<open>ungetstr\<close> is prepending (theory \<open>Buf\<close> proves that the
  array representation implements exactly this). When the buffer is empty and
  \<^verbatim>\<open>read_stdin\<close> is set, bytes come from standard input.

  Two behaviours of the C code are kept: a byte popped from the buffer is promoted
  as a signed \<^verbatim>\<open>char\<close>, so a 0xFF byte compares equal to \<^verbatim>\<open>EOF\<close>; and
  \<^verbatim>\<open>getword\<close> returns "end of input" when the input ends inside an identifier,
  so the identifier read so far is discarded. A NUL byte gives the empty token
  (\<^verbatim>\<open>TS\<close> is read as a C string).

  Every token read strictly shrinks the remaining input (\<open>getword_dec\<close>), which is
  the termination argument of the engine's loops \<^verbatim>\<open>EAT_WS\<close> and \<^verbatim>\<open>DNL\<close>.
  The main lemmas: \<^verbatim>\<open>getword\<close> returns the first token of the specification's
  tokenization \<open>tokens\<close> of the remaining input \<open>stream\<close> and leaves the rest, every
  token has the shape \<open>token_shape\<close>, and no token contains byte 0xFF.
\<close>

record istate =
  inp :: "byte list"
  read_stdin :: bool
  stdin :: "byte list"

subsection \<open>Bytes\<close>

text \<open>\<^verbatim>\<open>#define getch(b, read_stdin)\<close>\<close>
definition getch :: "istate \<Rightarrow> int \<times> istate" where
  "getch st =
     (case inp st of
        c # cs \<Rightarrow> (schar c, st\<lparr>inp := cs\<rparr>)
      | [] \<Rightarrow>
          (if read_stdin st then
             (case stdin st of
                c # cs \<Rightarrow> (uchar c, st\<lparr>stdin := cs\<rparr>)
              | [] \<Rightarrow> (EOF, st))
           else (EOF, st)))"

text \<open>\<^verbatim>\<open>ungetch(input, ch)\<close> and \<^verbatim>\<open>ungetstr(input, s)\<close> on the input stream.\<close>
definition ungetch :: "byte \<Rightarrow> istate \<Rightarrow> istate" where
  "ungetch c st = st\<lparr>inp := c # inp st\<rparr>"

definition ungetstr :: "byte list \<Rightarrow> istate \<Rightarrow> istate" where
  "ungetstr s st = st\<lparr>inp := s @ inp st\<rparr>"

text \<open>What is left to read: the measure of the tokenizer loops.\<close>
definition isize :: "istate \<Rightarrow> nat" where
  "isize st = length (inp st) + (if read_stdin st then length (stdin st) else 0)"

subsection \<open>Tokens\<close>

definition is_ident_start :: "byte \<Rightarrow> bool" where
  "is_ident_start c \<longleftrightarrow> is_alpha c \<or> c = CHR ''_''"

definition is_ident_char :: "byte \<Rightarrow> bool" where
  "is_ident_char c \<longleftrightarrow> is_alnum c \<or> c = CHR ''_''"

text \<open>A one-byte token read as a C string: the NUL byte gives the empty string.\<close>
definition cstr1 :: "byte \<Rightarrow> byte list" where
  "cstr1 c = (if c = CHR 0x00 then [] else [c])"

text \<open>The outcome of reading from the input: end of input (\<^verbatim>\<open>getword\<close> returns
  1 with \<^verbatim>\<open>err\<close> unset), a failure (returns 1 with \<^verbatim>\<open>err\<close> set, so
  \<^verbatim>\<open>READ_TOKEN\<close> quits), or a value.\<close>
datatype 'a rd = RdEof | RdErr | Rd 'a

text \<open>The identifier loop of \<^verbatim>\<open>getword\<close>: store identifier bytes, push back the
  first other byte. \<^verbatim>\<open>ungetch\<close> returns the stored byte as a signed \<^verbatim>\<open>char\<close>,
  so pushing back byte 0xFF (which only standard input can deliver here) returns
  \<^verbatim>\<open>EOF\<close> and \<^verbatim>\<open>getword\<close> reports a failure.\<close>
function read_ident :: "byte list \<Rightarrow> istate \<Rightarrow> (byte list \<times> istate) rd" where
  "read_ident tok st =
     (case getch st of (x, st') \<Rightarrow>
        if x = EOF then RdEof
        else if \<not> is_ident_char (to_char x) then
          (if schar (to_char x) = EOF then RdErr else Rd (tok, ungetch (to_char x) st'))
        else read_ident (tok @ [to_char x]) st')"
  by pat_completeness auto
termination
  by (relation "measure (\<lambda>(tok, st). isize st)")
    (auto simp add: getch_def isize_def split: list.splits if_splits)

text \<open>\<^verbatim>\<open>int getword(struct buf *token, struct buf *input, int read_stdin, int *err)\<close>.
  The first byte is stored with \<^verbatim>\<open>ungetch(token, x)\<close>, whose result is \<^verbatim>\<open>EOF\<close>
  for byte 0xFF: then \<^verbatim>\<open>getword\<close> returns 1 without an error, end of input.\<close>
definition getword :: "istate \<Rightarrow> (byte list \<times> istate) rd" where
  "getword st =
     (case getch st of (x, st') \<Rightarrow>
        if x = EOF then RdEof
        else if schar (to_char x) = EOF then RdEof
        else if is_ident_start (to_char x) then read_ident [to_char x] st'
        else Rd (cstr1 (to_char x), st'))"

text \<open>\<^verbatim>\<open>#define WS(s)\<close>: a token that is a single blank.\<close>
definition is_ws :: "byte list \<Rightarrow> bool" where
  "is_ws t \<longleftrightarrow> t = '' '' \<or> t = [CHR 0x09] \<or> t = [CHR 0x0A] \<or> t = [CHR 0x0D]"

text \<open>The shape of a token: the empty string (a NUL byte, which ends the C string
  at once), one byte that cannot start a name, or a name (\<^verbatim>\<open>isalpha\<close> or
  \<^verbatim>\<open>_\<close>, then \<^verbatim>\<open>isalnum\<close> or \<^verbatim>\<open>_\<close>).\<close>
definition token_shape :: "byte list \<Rightarrow> bool" where
  "token_shape t \<longleftrightarrow>
     (case t of
        [] \<Rightarrow> True
      | c # cs \<Rightarrow> if is_ident_start c then list_all is_ident_char cs else cs = [] \<and> c \<noteq> CHR 0x00)"

subsection \<open>Abstract view of the input\<close>

text \<open>Everything still to be read, in order: the pushback buffer, then standard input
  when it is read.\<close>
definition stream :: "istate \<Rightarrow> byte list" where
  "stream st = inp st @ (if read_stdin st then stdin st else [])"

text \<open>The tokens of a byte string as the specification describes them (section 4.2):
  a maximal identifier or a single other byte.\<close>
function tokens :: "byte list \<Rightarrow> byte list list" where
  "tokens [] = []"
| "tokens (c # cs) =
     (if is_ident_start c then (c # takeWhile is_ident_char cs) # tokens (dropWhile is_ident_char cs)
      else [c] # tokens cs)"
  by pat_completeness auto
termination
  by (relation "measure length") (auto simp add: le_imp_less_Suc length_dropWhile_le)

subsection \<open>The tokenizer consumes input\<close>

lemma getch_dec: "getch st = (x, st') \<Longrightarrow> x \<noteq> EOF \<Longrightarrow> isize st' < isize st"
  by (auto simp add: getch_def isize_def split: list.splits if_splits)

lemma isize_ungetch [simp]: "isize (ungetch c st) = Suc (isize st)"
  by (simp add: ungetch_def isize_def)

lemma isize_ungetstr [simp]: "isize (ungetstr t st) = length t + isize st"
  by (simp add: ungetstr_def isize_def)

lemma read_ident_le: "read_ident tok st = Rd (t, st') \<Longrightarrow> isize st' \<le> isize st"
proof (induction tok st rule: read_ident.induct)
  case (1 tok st)
  obtain x s1 where g: "getch st = (x, s1)" by fastforce
  have lt: "x \<noteq> EOF \<Longrightarrow> isize s1 < isize st" using g by (rule getch_dec)
  show ?case
  proof (cases "x = EOF \<or> \<not> is_ident_char (to_char x)")
    case True
    with "1.prems" g have "x \<noteq> EOF" and "st' = ungetch (to_char x) s1"
      by (auto split: if_splits)
    with lt show ?thesis by simp
  next
    case False
    with "1.prems" g have "read_ident (tok @ [to_char x]) s1 = Rd (t, st')" by simp
    with "1.IH" [OF g [symmetric]] False have "isize st' \<le> isize s1" by simp
    with lt False show ?thesis by simp
  qed
qed

declare read_ident.simps [simp del]

lemma getword_dec: "getword st = Rd (t, st') \<Longrightarrow> isize st' < isize st"
proof -
  assume gw: "getword st = Rd (t, st')"
  obtain x s1 where g: "getch st = (x, s1)" by fastforce
  with gw have x: "x \<noteq> EOF" by (simp add: getword_def split: if_splits)
  with g have lt: "isize s1 < isize st" by (rule getch_dec)
  show ?thesis
  proof (cases "is_ident_start (to_char x)")
    case True
    with gw g x have "read_ident [to_char x] s1 = Rd (t, st')" by (simp add: getword_def split: if_splits)
    then have "isize st' \<le> isize s1" by (rule read_ident_le)
    with lt show ?thesis by simp
  next
    case False
    with gw g x lt show ?thesis by (simp add: getword_def split: if_splits)
  qed
qed

subsection \<open>No token holds byte 0xFF\<close>

lemma ident_char_not_ff: "is_ident_char c \<Longrightarrow> c \<noteq> CHR 0xFF"
  by (auto simp add: is_ident_char_def ctype_defs)

lemma read_ident_no_ff:
  "read_ident tok st = Rd (t, st') \<Longrightarrow> CHR 0xFF \<notin> set tok \<Longrightarrow> CHR 0xFF \<notin> set t"
proof (induction tok st rule: read_ident.induct)
  case (1 tok st)
  obtain x s1 where g: "getch st = (x, s1)" by fastforce
  show ?case
  proof (cases "x = EOF \<or> \<not> is_ident_char (to_char x)")
    case True
    with "1.prems" g show ?thesis by (auto simp add: read_ident.simps [of tok st] split: if_splits)
  next
    case False
    then have "CHR 0xFF \<notin> set (tok @ [to_char x])" using "1.prems"(2) by (auto dest: ident_char_not_ff)
    moreover have "read_ident (tok @ [to_char x]) s1 = Rd (t, st')"
      using "1.prems"(1) g False by (simp add: read_ident.simps [of tok st])
    ultimately show ?thesis using "1.IH" [OF g [symmetric]] False by simp
  qed
qed

text \<open>C23: no token that \<^verbatim>\<open>getword\<close> returns contains byte 0xFF: a buffered 0xFF
  reads as \<^verbatim>\<open>EOF\<close>, and one from standard input ends the input or fails the read.
  Hence every string the engine pushes back (built from tokens) is free of 0xFF, so the
  \<^verbatim>\<open>ungetstr\<close> calls of the loop never fail on it and \<^verbatim>\<open>translit\<close> never indexes
  its 255-entry map with 255.\<close>
theorem token_no_ff: "getword st = Rd (t, st') \<Longrightarrow> CHR 0xFF \<notin> set t"
proof -
  assume gw: "getword st = Rd (t, st')"
  obtain x s1 where g: "getch st = (x, s1)" by fastforce
  with gw have x: "x \<noteq> EOF" "schar (to_char x) \<noteq> EOF" by (simp_all add: getword_def split: if_splits)
  then have ff: "to_char x \<noteq> CHR 0xFF" by (auto simp add: schar_EOF_iff)
  show ?thesis
  proof (cases "is_ident_start (to_char x)")
    case True
    with gw g x have "read_ident [to_char x] s1 = Rd (t, st')" by (simp add: getword_def)
    with ff show ?thesis by (auto dest: read_ident_no_ff)
  next
    case False
    with gw g x ff show ?thesis by (auto simp add: getword_def cstr1_def split: if_splits)
  qed
qed

subsection \<open>Tokens have the shape of names or single bytes\<close>

lemma read_ident_suffix:
  "read_ident tok st = Rd (t, st') \<Longrightarrow> \<exists>ys. t = tok @ ys \<and> list_all is_ident_char ys"
proof (induction tok st rule: read_ident.induct)
  case (1 tok st)
  obtain x s1 where g: "getch st = (x, s1)" by fastforce
  show ?case
  proof (cases "x = EOF \<or> \<not> is_ident_char (to_char x)")
    case True
    with "1.prems" g show ?thesis by (auto simp add: read_ident.simps [of tok st] split: if_splits)
  next
    case False
    then have "read_ident (tok @ [to_char x]) s1 = Rd (t, st')"
      using "1.prems" g by (simp add: read_ident.simps [of tok st])
    with "1.IH" [OF g [symmetric]] False obtain ys where
      "t = (tok @ [to_char x]) @ ys" "list_all is_ident_char ys" by blast
    with False show ?thesis by (intro exI [of _ "to_char x # ys"]) simp
  qed
qed

text \<open>C22: every token \<^verbatim>\<open>getword\<close> returns has the shape of a token: a name, a
  single byte that cannot start a name, or the empty string of a NUL byte.\<close>
theorem getword_token_shape: "getword st = Rd (t, st') \<Longrightarrow> token_shape t"
proof -
  assume gw: "getword st = Rd (t, st')"
  obtain x s1 where g: "getch st = (x, s1)" by fastforce
  show ?thesis
  proof (cases "is_ident_start (to_char x)")
    case True
    with gw g have "read_ident [to_char x] s1 = Rd (t, st')" by (simp add: getword_def split: if_splits)
    then obtain ys where "t = [to_char x] @ ys" "list_all is_ident_char ys"
      by (blast dest: read_ident_suffix)
    with True show ?thesis by (simp add: token_shape_def)
  next
    case False
    with gw g show ?thesis by (auto simp add: getword_def cstr1_def token_shape_def split: if_splits)
  qed
qed

subsection \<open>Tokens are the input\<close>

lemma getch_stream:
  "getch st = (x, s1) \<Longrightarrow> x \<noteq> EOF \<Longrightarrow>
     stream st = to_char x # stream s1 \<and> read_stdin s1 = read_stdin st"
  by (auto simp add: getch_def stream_def split: list.splits if_splits)

lemma getch_not_EOF:
  "stream st \<noteq> [] \<Longrightarrow> CHR 0xFF \<notin> set (stream st) \<Longrightarrow> fst (getch st) \<noteq> EOF"
  by (auto simp add: getch_def stream_def schar_EOF_iff split: list.splits if_splits)

lemma stream_ungetch [simp]: "stream (ungetch c st) = c # stream st"
  by (simp add: ungetch_def stream_def)

lemma read_stdin_ungetch [simp]: "read_stdin (ungetch c st) = read_stdin st"
  by (simp add: ungetch_def)

lemma read_ident_stream:
  "CHR 0xFF \<notin> set (stream st) \<Longrightarrow> \<exists>c \<in> set (stream st). \<not> is_ident_char c \<Longrightarrow>
   \<exists>st'. read_ident tok st = Rd (tok @ takeWhile is_ident_char (stream st), st')
     \<and> stream st' = dropWhile is_ident_char (stream st) \<and> read_stdin st' = read_stdin st"
proof (induction tok st rule: read_ident.induct)
  case (1 tok st)
  obtain x s1 where g: "getch st = (x, s1)" by fastforce
  have ne: "stream st \<noteq> []" using "1.prems"(2) by auto
  have x: "x \<noteq> EOF" using getch_not_EOF [OF ne "1.prems"(1)] g by simp
  note gs = getch_stream [OF g x]
  show ?case
  proof (cases "is_ident_char (to_char x)")
    case True
    have "CHR 0xFF \<notin> set (stream s1)" and "\<exists>c \<in> set (stream s1). \<not> is_ident_char c"
      using "1.prems" gs True by auto
    with "1.IH" [OF g [symmetric] x] True obtain st' where
      "read_ident (tok @ [to_char x]) s1 = Rd (tok @ [to_char x] @ takeWhile is_ident_char (stream s1), st')"
      "stream st' = dropWhile is_ident_char (stream s1)" "read_stdin st' = read_stdin s1"
      by auto
    with g x True gs show ?thesis by (simp add: read_ident.simps [of tok st])
  next
    case False
    have "to_char x \<noteq> CHR 0xFF" using "1.prems"(1) gs by auto
    then have "schar (to_char x) \<noteq> EOF" by (simp add: schar_EOF_iff)
    with g x False gs show ?thesis by (simp add: read_ident.simps [of tok st])
  qed
qed

lemma isize_stream: "isize st = length (stream st)"
  by (simp add: isize_def stream_def)

lemma getword_Nil: "stream st = [] \<Longrightarrow> getword st = RdEof"
  by (simp add: getword_def getch_def stream_def split: list.splits if_splits)

subsection \<open>The input ends inside an identifier or at byte 0xFF\<close>

lemma getch_Nil_EOF: "stream st = [] \<Longrightarrow> getch st = (x, s1) \<Longrightarrow> x = EOF"
  by (auto simp add: getch_def stream_def split: list.splits if_splits)

lemma getch_hd_not_EOF:
  "stream st = c # cs \<Longrightarrow> c \<noteq> CHR 0xFF \<Longrightarrow> getch st = (x, s1) \<Longrightarrow> x \<noteq> EOF"
  by (auto simp add: getch_def stream_def schar_EOF_iff split: list.splits if_splits)

lemma getch_inp_length: "getch st = (x, s1) \<Longrightarrow> length (inp s1) = length (inp st) - 1"
  by (auto simp add: getch_def split: list.splits if_splits)

text \<open>An identifier that runs into the end of the input is never returned.\<close>
lemma read_ident_ident_end:
  "list_all is_ident_char (stream st) \<Longrightarrow> read_ident tok st = RdEof"
proof (induction tok st rule: read_ident.induct)
  case (1 tok st)
  obtain x s1 where g: "getch st = (x, s1)" by fastforce
  show ?case
  proof (cases "stream st")
    case Nil
    from Nil g have "x = EOF" by (rule getch_Nil_EOF)
    with g show ?thesis by (simp add: read_ident.simps [of tok st])
  next
    case (Cons c cs)
    with "1.prems" have ff: "c \<noteq> CHR 0xFF" by (auto dest: ident_char_not_ff)
    have x: "x \<noteq> EOF" using getch_hd_not_EOF [OF Cons ff g] .
    with g have sp: "stream st = to_char x # stream s1" by (simp add: getch_stream)
    with "1.prems" have "is_ident_char (to_char x)" "list_all is_ident_char (stream s1)" by simp_all
    with "1.IH" [OF g [symmetric]] g x show ?thesis by (simp add: read_ident.simps [of tok st])
  qed
qed

text \<open>A 0xFF after the identifier read so far: end of input when it comes from the
  pushback buffer (read as \<^verbatim>\<open>EOF\<close>), a failed read when it comes from standard
  input (pushing it back as the delimiter returns \<^verbatim>\<open>EOF\<close>).\<close>
lemma read_ident_ff:
  "stream st = t @ CHR 0xFF # rest \<Longrightarrow> list_all is_ident_char t \<Longrightarrow>
   read_ident tok st = (if length (inp st) \<le> length t then RdErr else RdEof)"
proof (induction t arbitrary: tok st)
  case Nil
  then show ?case
    by (cases "inp st")
       (auto simp add: read_ident.simps [of tok st] getch_def stream_def schar_EOF_iff
             is_ident_char_def ctype_defs split: if_splits list.splits)
next
  case (Cons c t)
  obtain x s1 where g: "getch st = (x, s1)" by fastforce
  have ff: "c \<noteq> CHR 0xFF" using Cons.prems(2) by (auto dest: ident_char_not_ff)
  have "stream st = c # (t @ CHR 0xFF # rest)" using Cons.prems(1) by simp
  from getch_hd_not_EOF [OF this ff g] have x: "x \<noteq> EOF" .
  with g have sp: "stream st = to_char x # stream s1" by (simp add: getch_stream)
  with Cons.prems have c: "to_char x = c" "is_ident_char c" "stream s1 = t @ CHR 0xFF # rest"
    "list_all is_ident_char t" by simp_all
  have "read_ident tok st = read_ident (tok @ [c]) s1"
    using g x c by (simp add: read_ident.simps [of tok st])
  also have "\<dots> = (if length (inp s1) \<le> length t then RdErr else RdEof)"
    using Cons.IH c by blast
  finally show ?case using getch_inp_length [OF g] by auto
qed

lemma ident_start_char: "is_ident_start c \<Longrightarrow> is_ident_char c"
  by (auto simp add: is_ident_start_def is_ident_char_def ctype_defs)

lemma getword_first:
  assumes "stream st = c # cs" and "c \<noteq> CHR 0xFF"
  obtains s1 where "getch st = (uchar c, s1) \<or> getch st = (schar c, s1)"
    and "stream s1 = cs" and "length (inp s1) = length (inp st) - 1"
proof -
  obtain x s1 where g: "getch st = (x, s1)" by fastforce
  from getch_hd_not_EOF [OF assms g] have x: "x \<noteq> EOF" .
  with g assms(1) have "to_char x = c" "stream s1 = cs" by (auto dest: getch_stream)
  moreover have "x = uchar c \<or> x = schar c"
    using g x \<open>to_char x = c\<close> by (auto simp add: getch_def split: list.splits if_splits)
  ultimately show ?thesis using that g getch_inp_length [OF g] by auto
qed

lemma getword_ident_end:
  assumes "stream st = c # cs" and "is_ident_start c" and "list_all is_ident_char cs"
  shows "getword st = RdEof"
proof -
  have ic: "is_ident_char c" using assms(2) by (rule ident_start_char)
  then have ff: "c \<noteq> CHR 0xFF" by (rule ident_char_not_ff)
  obtain s1 where g: "getch st = (uchar c, s1) \<or> getch st = (schar c, s1)" and s1: "stream s1 = cs"
    using getword_first [OF assms(1) ff] by blast
  have "read_ident [c] s1 = RdEof" using assms(3) s1 by (simp add: read_ident_ident_end)
  with g ff assms(2) show ?thesis by (auto simp add: getword_def schar_EOF_iff)
qed

lemma getword_ff:
  assumes "stream st = t @ CHR 0xFF # rest" and "list_all is_ident_char t"
    and "t = [] \<or> is_ident_start (hd t)"
  shows "getword st = (if t \<noteq> [] \<and> length (inp st) \<le> length t then RdErr else RdEof)"
proof (cases t)
  case Nil
  with assms(1) show ?thesis
    by (cases "inp st")
       (auto simp add: getword_def getch_def stream_def schar_EOF_iff split: list.splits if_splits)
next
  case (Cons c t')
  with assms have ic: "is_ident_start c" "list_all is_ident_char t'" by simp_all
  have ff: "c \<noteq> CHR 0xFF" using ic(1) by (auto dest: ident_start_char ident_char_not_ff)
  obtain s1 where g: "getch st = (uchar c, s1) \<or> getch st = (schar c, s1)"
    and s1: "stream s1 = t' @ CHR 0xFF # rest" and l: "length (inp s1) = length (inp st) - 1"
    using getword_first [of st c "t' @ CHR 0xFF # rest"] assms(1) Cons ff by auto
  have "read_ident [c] s1 = (if length (inp s1) \<le> length t' then RdErr else RdEof)"
    using read_ident_ff [OF s1 ic(2)] .
  with g ff ic(1) l Cons show ?thesis by (auto simp add: getword_def schar_EOF_iff)
qed

lemma getword_nul:
  assumes "stream st = CHR 0x00 # rest"
  shows "\<exists>st'. getword st = Rd ([], st') \<and> stream st' = rest"
proof -
  obtain s1 where g: "getch st = (uchar (CHR 0x00), s1) \<or> getch st = (schar (CHR 0x00), s1)"
    and s1: "stream s1 = rest"
    using getword_first [OF assms] by auto
  then show ?thesis
    by (auto simp add: getword_def schar_EOF_iff is_ident_start_def ctype_defs cstr1_def)
qed

text \<open>C7: on input without NUL and 0xFF bytes that does not end inside an identifier,
  \<^verbatim>\<open>getword\<close> returns the first token of the specification's tokenization and
  leaves exactly the rest of the input: the tokens concatenate back to the input.\<close>
theorem getword_tokens:
  assumes nul: "CHR 0x00 \<notin> set (stream st)" and ff: "CHR 0xFF \<notin> set (stream st)"
    and ne: "stream st \<noteq> []" and lst: "\<not> is_ident_char (last (stream st))"
  shows "\<exists>t st'. getword st = Rd (t, st') \<and> stream st = t @ stream st'
    \<and> tokens (stream st) = t # tokens (stream st') \<and> read_stdin st' = read_stdin st"
proof -
  obtain x s1 where g: "getch st = (x, s1)" by fastforce
  have x: "x \<noteq> EOF" using getch_not_EOF [OF ne ff] g by simp
  note gs = getch_stream [OF g x]
  let ?c = "to_char x"
  have nf: "schar ?c \<noteq> EOF" using ff gs by (auto simp add: schar_EOF_iff)
  show ?thesis
  proof (cases "is_ident_start ?c")
    case True
    have "stream s1 \<noteq> []" using lst gs True by (auto dest: ident_start_char)
    then have "\<exists>c \<in> set (stream s1). \<not> is_ident_char c" using lst gs by (auto intro: last_in_set)
    moreover have "CHR 0xFF \<notin> set (stream s1)" using ff gs by simp
    ultimately obtain st' where r: "read_ident [?c] s1 = Rd ([?c] @ takeWhile is_ident_char (stream s1), st')"
      and s': "stream st' = dropWhile is_ident_char (stream s1)" and rs: "read_stdin st' = read_stdin s1"
      using read_ident_stream by blast
    then show ?thesis using g x nf True gs by (simp add: getword_def)
  next
    case False
    have "cstr1 ?c = [?c]" using nul gs by (auto simp add: cstr1_def)
    then show ?thesis using g x nf False gs by (simp add: getword_def)
  qed
qed

theorem getword_tokens_witness:
  "CHR 0x00 \<notin> set (stream \<lparr>inp = ''ab+'', read_stdin = False, stdin = []\<rparr>)
   \<and> CHR 0xFF \<notin> set (stream \<lparr>inp = ''ab+'', read_stdin = False, stdin = []\<rparr>)
   \<and> tokens ''ab+'' = [''ab'', ''+'']
   \<and> (\<exists>t st'. getword \<lparr>inp = ''ab+'', read_stdin = False, stdin = []\<rparr> = Rd (t, st')
        \<and> tokens (stream \<lparr>inp = ''ab+'', read_stdin = False, stdin = []\<rparr>) = t # tokens (stream st'))"
proof -
  have h: "CHR 0x00 \<notin> set (stream \<lparr>inp = ''ab+'', read_stdin = False, stdin = []\<rparr>)"
    "CHR 0xFF \<notin> set (stream \<lparr>inp = ''ab+'', read_stdin = False, stdin = []\<rparr>)"
    "stream \<lparr>inp = ''ab+'', read_stdin = False, stdin = []\<rparr> \<noteq> []"
    "\<not> is_ident_char (last (stream \<lparr>inp = ''ab+'', read_stdin = False, stdin = []\<rparr>))"
    by (simp_all add: stream_def is_ident_char_def ctype_defs)
  have "tokens ''ab+'' = [''ab'', ''+'']" by (simp add: is_ident_char_def is_ident_start_def ctype_defs)
  with getword_tokens [OF h] h show ?thesis by blast
qed

subsection \<open>Evaluation on concrete input\<close>

text \<open>The equations of \<open>getch\<close> and of the identifier loop for a concrete
  stream only, so that evaluation never unfolds the loop on an unknown state.\<close>

lemma getch_eval [m4_eval]:
  "getch \<lparr>inp = c # cs, read_stdin = r, stdin = s\<rparr> = (schar c, \<lparr>inp = cs, read_stdin = r, stdin = s\<rparr>)"
  "getch \<lparr>inp = [], read_stdin = True, stdin = c # cs\<rparr> = (uchar c, \<lparr>inp = [], read_stdin = True, stdin = cs\<rparr>)"
  "getch \<lparr>inp = [], read_stdin = True, stdin = []\<rparr> = (EOF, \<lparr>inp = [], read_stdin = True, stdin = []\<rparr>)"
  "getch \<lparr>inp = [], read_stdin = False, stdin = s\<rparr> = (EOF, \<lparr>inp = [], read_stdin = False, stdin = s\<rparr>)"
  by (simp_all add: getch_def)

lemma read_ident_eval [m4_eval]:
  "read_ident tok \<lparr>inp = i, read_stdin = r, stdin = s\<rparr> =
     (case getch \<lparr>inp = i, read_stdin = r, stdin = s\<rparr> of (x, st') \<Rightarrow>
        if x = EOF then RdEof
        else if \<not> is_ident_char (to_char x) then
          (if schar (to_char x) = EOF then RdErr else Rd (tok, ungetch (to_char x) st'))
        else read_ident (tok @ [to_char x]) st')"
  by (rule read_ident.simps)

declare getword_def [m4_eval] is_ident_start_def [m4_eval] is_ident_char_def [m4_eval]
  cstr1_def [m4_eval] ungetch_def [m4_eval] ungetstr_def [m4_eval] is_ws_def [m4_eval]

theorem getword_token_shape_witness:
  "getword \<lparr>inp = ''a1 +'', read_stdin = False, stdin = []\<rparr> = Rd (''a1'', \<lparr>inp = '' +'', read_stdin = False, stdin = []\<rparr>)
   \<and> token_shape ''a1''"
proof -
  have g: "getword \<lparr>inp = ''a1 +'', read_stdin = False, stdin = []\<rparr> = Rd (''a1'', \<lparr>inp = '' +'', read_stdin = False, stdin = []\<rparr>)"
    by (simp add: m4_eval ctype_defs)
  show ?thesis using getword_token_shape [OF g] g by simp
qed

theorem token_no_ff_witness:
  "getword \<lparr>inp = ''ab+'', read_stdin = False, stdin = []\<rparr> = Rd (''ab'', \<lparr>inp = ''+'', read_stdin = False, stdin = []\<rparr>)
   \<and> CHR 0xFF \<notin> set ''ab''"
proof -
  have g: "getword \<lparr>inp = ''ab+'', read_stdin = False, stdin = []\<rparr> = Rd (''ab'', \<lparr>inp = ''+'', read_stdin = False, stdin = []\<rparr>)"
    by (simp add: m4_eval ctype_defs)
  show ?thesis using token_no_ff [OF g] g by simp
qed

end
