(* ===== verification/Builtins.thy ===== *)
theory Builtins
  imports Numeric
begin

text \<open>
  The parts of the built-in macros of \<^verbatim>\<open>src/m4.c\<close> that compute on their
  arguments alone: parameter substitution \<^verbatim>\<open>sub_args\<close> and \<^verbatim>\<open>strip_def\<close>,
  and the argument processing of \<^verbatim>\<open>changequote\<close>, \<^verbatim>\<open>divert\<close>,
  \<^verbatim>\<open>index\<close>, \<^verbatim>\<open>translit\<close>, \<^verbatim>\<open>substr\<close>, \<^verbatim>\<open>incr\<close> and the five
  arithmetic built-ins inside \<^verbatim>\<open>PROCESS_BI_WITH_ARGS\<close>. The arguments of a call
  are the list of collected argument buffers 1, 2, ... (\<^verbatim>\<open>arg_buf[1..act_arg]\<close>);
  \<open>arg\<close> is the macro \<^verbatim>\<open>ARG(n)\<close>, the empty string for a buffer never
  allocated. Every fatal exit of a built-in is a value of \<open>m4_error\<close>, whose
  \<open>emsg\<close> is the text the source writes to standard error before \<^verbatim>\<open>QUIT\<close>.
\<close>

datatype m4_error =
    ChangequoteInvalid
  | DivertInvalid
  | UndefineUnknown
  | IncludeFailed "byte list"
  | SubstrInvalid
  | SubstrOverflow
  | IncrInvalid
  | IncrOverflow
  | InvalidNumber "byte list"
  | ArithOverflow "byte list"
  | SubUnderflow
  | ArgOneMissing "byte list"
  | DivideByZero
  | ModuloByZero
  | TooManyArgs
  | UndivertNotDiv0
  | StackNotUnwound
  | QuotesNotExited
  | ReadFailed
  | MaketempFailed
  | MaketempCloseFailed
  | EsyscmdFailed
  | TranslitOutOfRange

definition nl :: "byte list" where
  "nl = [CHR 0x0A]"

text \<open>The diagnostic of each fatal exit (\<^verbatim>\<open>EMSG\<close>; empty where the source quits
  silently: \<^verbatim>\<open>undefine\<close> of an unknown name, the \<^verbatim>\<open>AOF(n, 1)\<close> test of
  \<^verbatim>\<open>substr\<close> and a failed \<^verbatim>\<open>READ_TOKEN\<close>).\<close>
fun emsg :: "m4_error \<Rightarrow> byte list" where
  "emsg ChangequoteInvalid = ''changequote: quotes must be different single graph chars that cannot a comma or parentheses'' @ nl"
| "emsg DivertInvalid = ''divert: Diversion number must be 0 to 9 or -1'' @ nl"
| "emsg UndefineUnknown = []"
| "emsg (IncludeFailed f) = ''include: Failed to include file: '' @ f @ nl"
| "emsg SubstrInvalid = ''substr: Invalid index or length'' @ nl"
| "emsg SubstrOverflow = []"
| "emsg IncrInvalid = ''incr: Invalid number'' @ nl"
| "emsg IncrOverflow = ''incr: Integer overflow'' @ nl"
| "emsg (InvalidNumber b) = b @ '': Invalid number'' @ nl"
| "emsg (ArithOverflow b) = b @ '': Integer overflow'' @ nl"
| "emsg SubUnderflow = ''sub: Integer underflow'' @ nl"
| "emsg (ArgOneMissing b) = b @ '': Argument 1 must be used'' @ nl"
| "emsg DivideByZero = ''div: Divide by zero'' @ nl"
| "emsg ModuloByZero = ''mod: Modulo by zero'' @ nl"
| "emsg TooManyArgs = ''Macro call has too many arguments'' @ nl"
| "emsg UndivertNotDiv0 = ''undivert: Can only call from diversion 0 when called without arguments'' @ nl"
| "emsg StackNotUnwound = ''Input finished without unwinding the stack'' @ nl"
| "emsg QuotesNotExited = ''Input finished without exiting quotes'' @ nl"
| "emsg ReadFailed = []"
| "emsg MaketempFailed = ''maketemp: Failed'' @ nl"
| "emsg MaketempCloseFailed = ''maketemp: Failed to close temp file'' @ nl"
| "emsg EsyscmdFailed = ''esyscmd: Failed'' @ nl"
| "emsg TranslitOutOfRange = []"

subsection \<open>Arguments\<close>

text \<open>\<^verbatim>\<open>#define ARG(n)\<close>: argument \<open>n\<close> (from 1) of the call, \<open>''''\<close> when its
  buffer was never allocated.\<close>
definition arg :: "byte list list \<Rightarrow> nat \<Rightarrow> byte list" where
  "arg args n = (if 0 < n \<and> n \<le> length args then args ! (n - 1) else [])"

text \<open>A digit \<open>'1'..'9'\<close>, the only ones \<^verbatim>\<open>sub_args\<close> and
  \<^verbatim>\<open>strip_def\<close> treat as parameters.\<close>
definition is_param_digit :: "byte \<Rightarrow> bool" where
  "is_param_digit h \<longleftrightarrow> is_digit h \<and> h \<noteq> CHR ''0''"

subsection \<open>Parameter substitution\<close>

text \<open>\<^verbatim>\<open>int sub_args(struct buf *result, struct mcall *stack)\<close>.\<close>
fun sub_args :: "byte list \<Rightarrow> byte list list \<Rightarrow> byte list" where
  "sub_args [] args = []"
| "sub_args (ch # s) args =
     (if ch = CHR ''$'' then
        (case s of
           h # s' \<Rightarrow>
             if is_param_digit h then arg args (digit_val h) @ sub_args s' args
             else ch # sub_args s args
         | [] \<Rightarrow> [ch])
      else ch # sub_args s args)"

text \<open>\<^verbatim>\<open>char *strip_def(char *def)\<close>.\<close>
fun strip_def :: "byte list \<Rightarrow> byte list" where
  "strip_def [] = []"
| "strip_def (ch # s) =
     (if ch = CHR ''$'' then
        (case s of
           h # s' \<Rightarrow> if is_param_digit h then strip_def s' else ch # strip_def s
         | [] \<Rightarrow> [ch])
      else ch # strip_def s)"

subsection \<open>Argument checks of changequote and divert\<close>

definition quote_forbidden :: "byte \<Rightarrow> bool" where
  "quote_forbidden c \<longleftrightarrow> c = CHR ''('' \<or> c = CHR '')'' \<or> c = CHR '',''"

text \<open>The condition under which \<^verbatim>\<open>changequote\<close> accepts its arguments.\<close>
definition quotes_ok :: "byte list \<Rightarrow> byte list \<Rightarrow> bool" where
  "quotes_ok a1 a2 \<longleftrightarrow>
     length a1 = 1 \<and> length a2 = 1 \<and> hd a1 \<noteq> hd a2 \<and> is_graph (hd a1) \<and> is_graph (hd a2)
     \<and> \<not> quote_forbidden (hd a1) \<and> \<not> quote_forbidden (hd a2)"

text \<open>The diversion number of \<^verbatim>\<open>divert(n)\<close>: \<open>0..9\<close>, or 10 for \<open>-1\<close>.\<close>
definition divert_num :: "byte list \<Rightarrow> nat option" where
  "divert_num a =
     (if length a = 1 \<and> is_digit (hd a) then Some (digit_val (hd a))
      else if a = ''-1'' then Some 10 else None)"

subsection \<open>index\<close>

text \<open>\<^verbatim>\<open>strstr(ARG(1), ARG(2))\<close> as an offset: the first position where the needle
  occurs.\<close>
fun strstr :: "byte list \<Rightarrow> byte list \<Rightarrow> nat option" where
  "strstr [] n = (if n = [] then Some 0 else None)"
| "strstr (c # h) n = (if take (length n) (c # h) = n then Some 0 else map_option Suc (strstr h n))"

definition bi_index :: "byte list list \<Rightarrow> byte list" where
  "bi_index args =
     (case strstr (arg args 1) (arg args 2) of
        None \<Rightarrow> fmt_minus1
      | Some i \<Rightarrow> dec_str i)"

subsection \<open>translit\<close>

text \<open>The map \<^verbatim>\<open>int map[UCHAR_MAX]\<close> of \<^verbatim>\<open>translit\<close>, indexed by byte: -1
  passes a byte through, 0 deletes it, any other value replaces it. The C array has the
  255 slots 0..254; \<open>translit\<close> below only consults this function at bytes below
  0xFF and makes an access at 0xFF an explicit failure. The first loop runs over \<open>from\<close> and \<open>to\<close>
  in parallel and keeps the first mapping of a byte; it stops at the end of either string
  and returns the rest of \<open>from\<close>, starting with the byte that had no partner.\<close>
fun translit_pairs :: "(nat \<Rightarrow> int) \<Rightarrow> byte list \<Rightarrow> byte list \<Rightarrow> (nat \<Rightarrow> int) \<times> byte list" where
  "translit_pairs m (a # as) (b # bs) =
     translit_pairs (if m (of_char a) = -1 then m(of_char a := uchar b) else m) as bs"
| "translit_pairs m as bs = (m, as)"

text \<open>The second loop: every remaining byte of \<open>from\<close> is mapped to delete.\<close>
definition translit_delete :: "(nat \<Rightarrow> int) \<Rightarrow> byte list \<Rightarrow> nat \<Rightarrow> int" where
  "translit_delete m as = fold (\<lambda>a m. m(of_char a := 0)) as m"

definition translit_map :: "byte list \<Rightarrow> byte list \<Rightarrow> nat \<Rightarrow> int" where
  "translit_map from to =
     (case translit_pairs (\<lambda>_. -1) from to of (m, rest) \<Rightarrow> translit_delete m rest)"

definition translit_apply :: "(nat \<Rightarrow> int) \<Rightarrow> byte list \<Rightarrow> byte list" where
  "translit_apply m s =
     concat (map (\<lambda>c. let x = m (of_char c) in
                       if x = -1 then [c] else if x \<noteq> 0 then [to_char x] else []) s)"

text \<open>\<^verbatim>\<open>translit(s, from, to)\<close>: the string pushed back. Every byte of \<open>from\<close>
  and of \<open>s\<close> is used as an index of \<^verbatim>\<open>map\<close> (bytes of \<open>to\<close> are only stored
  as values), so a 0xFF in either indexes past the 255-slot array: \<open>None\<close>, the
  undefined behaviour of the source.\<close>
definition translit :: "byte list \<Rightarrow> byte list \<Rightarrow> byte list \<Rightarrow> byte list option" where
  "translit s from to =
     (if CHR 0xFF \<in> set from \<or> CHR 0xFF \<in> set s then None
      else Some (translit_apply (translit_map from to) s))"

text \<open>The historical m4 semantics (and the spec's wording "unless already set"):
  a byte maps according to its first occurrence in \<open>from\<close>.\<close>
definition translit_spec :: "byte list \<Rightarrow> byte list \<Rightarrow> byte list \<Rightarrow> byte list" where
  "translit_spec s from to =
     concat (map (\<lambda>c. case strstr from [c] of
                         None \<Rightarrow> [c]
                       | Some i \<Rightarrow> if i < length to then [to ! i] else []) s)"

subsection \<open>substr, incr\<close>

text \<open>\<^verbatim>\<open>substr(s, w, n)\<close>: the string to push back, or the fatal error. Nothing is
  parsed when \<open>s\<close> is empty; \<^verbatim>\<open>snprintf\<close> with size \<^verbatim>\<open>MIN(len + 1, n + 1)\<close>
  copies at most \<open>min len n\<close> bytes of the suffix.\<close>
definition bi_substr :: "byte list list \<Rightarrow> m4_error + byte list" where
  "bi_substr args =
     (let s = arg args 1; len = length s in
      if len = 0 then Inr []
      else (case (str_to_num (arg args 2), str_to_num (arg args 3)) of
              (Some w, Some n) \<Rightarrow>
                if unat w < len then
                  (if AOF n 1 then Inl SubstrOverflow
                   else Inr (take (min len (unat n)) (drop (unat w) s)))
                else Inr []
            | _ \<Rightarrow> Inl SubstrInvalid))"

definition bi_incr :: "byte list list \<Rightarrow> m4_error + byte list" where
  "bi_incr args =
     (case str_to_num (arg args 1) of
        None \<Rightarrow> Inl IncrInvalid
      | Some n \<Rightarrow> if AOF n 1 then Inl IncrOverflow else Inr (fmt_lu (n + 1)))"

subsection \<open>Arithmetic\<close>

text \<open>The loop \<^verbatim>\<open>for (k = ...; k < 10; ++k)\<close> shared by the five arithmetic
  built-ins: empty arguments are skipped, the others parsed (error \<open>InvalidNumber\<close>)
  and combined with the accumulator by one checked step.\<close>
fun arith_fold :: "(size_t \<Rightarrow> size_t \<Rightarrow> m4_error + size_t) \<Rightarrow> byte list \<Rightarrow> byte list list
    \<Rightarrow> size_t \<Rightarrow> m4_error + size_t" where
  "arith_fold f nm [] w = Inr w"
| "arith_fold f nm (a # as) w =
     (if a = [] then arith_fold f nm as w
      else (case str_to_num a of
              None \<Rightarrow> Inl (InvalidNumber nm)
            | Some n \<Rightarrow> (case f w n of Inl e \<Rightarrow> Inl e | Inr w' \<Rightarrow> arith_fold f nm as w')))"

definition add_step :: "size_t \<Rightarrow> size_t \<Rightarrow> m4_error + size_t" where
  "add_step w n = (if AOF w n then Inl (ArithOverflow ''add'') else Inr (w + n))"

definition mult_step :: "size_t \<Rightarrow> size_t \<Rightarrow> m4_error + size_t" where
  "mult_step w n = (if MOF w n then Inl (ArithOverflow ''mult'') else Inr (w * n))"

definition sub_step :: "size_t \<Rightarrow> size_t \<Rightarrow> m4_error + size_t" where
  "sub_step w n = (if n > w then Inl SubUnderflow else Inr (w - n))"

definition div_step :: "size_t \<Rightarrow> size_t \<Rightarrow> m4_error + size_t" where
  "div_step w n = (if n = 0 then Inl DivideByZero else Inr (w div n))"

definition mod_step :: "size_t \<Rightarrow> size_t \<Rightarrow> m4_error + size_t" where
  "mod_step w n = (if n = 0 then Inl ModuloByZero else Inr (w mod n))"

definition args_from :: "byte list list \<Rightarrow> nat \<Rightarrow> byte list list" where
  "args_from args k = map (arg args) [k..<10]"

definition bi_add :: "byte list list \<Rightarrow> m4_error + size_t" where
  "bi_add args = arith_fold add_step ''add'' (args_from args 1) 0"

definition bi_mult :: "byte list list \<Rightarrow> m4_error + size_t" where
  "bi_mult args = arith_fold mult_step ''mult'' (args_from args 1) 1"

text \<open>\<^verbatim>\<open>sub\<close>, \<^verbatim>\<open>div\<close> and \<^verbatim>\<open>mod\<close>: argument 1 is required and starts the
  fold over arguments 2..9.\<close>
definition bi_fold1 :: "(size_t \<Rightarrow> size_t \<Rightarrow> m4_error + size_t) \<Rightarrow> byte list
    \<Rightarrow> byte list list \<Rightarrow> m4_error + size_t" where
  "bi_fold1 f nm args =
     (if arg args 1 = [] then Inl (ArgOneMissing nm)
      else (case str_to_num (arg args 1) of
              None \<Rightarrow> Inl (InvalidNumber nm)
            | Some w \<Rightarrow> arith_fold f nm (args_from args 2) w))"

definition bi_sub :: "byte list list \<Rightarrow> m4_error + size_t" where
  "bi_sub args = bi_fold1 sub_step ''sub'' args"

definition bi_div :: "byte list list \<Rightarrow> m4_error + size_t" where
  "bi_div args = bi_fold1 div_step ''div'' args"

definition bi_mod :: "byte list list \<Rightarrow> m4_error + size_t" where
  "bi_mod args = bi_fold1 mod_step ''mod'' args"

declare nl_def [m4_eval] arg_def [m4_eval] is_param_digit_def [m4_eval] quote_forbidden_def [m4_eval]
  quotes_ok_def [m4_eval] divert_num_def [m4_eval] bi_index_def [m4_eval] translit_delete_def [m4_eval]
  translit_map_def [m4_eval] translit_apply_def [m4_eval] translit_def [m4_eval] bi_substr_def [m4_eval]
  bi_incr_def [m4_eval] add_step_def [m4_eval] mult_step_def [m4_eval] sub_step_def [m4_eval]
  div_step_def [m4_eval] mod_step_def [m4_eval] args_from_def [m4_eval] bi_add_def [m4_eval]
  bi_mult_def [m4_eval] bi_fold1_def [m4_eval] bi_sub_def [m4_eval] bi_div_def [m4_eval] bi_mod_def [m4_eval]


subsection \<open>Properties of the built-ins\<close>

lemma arg_Nil [simp]: "arg [] k = []"
  by (auto simp add: arg_def)

text \<open>C29: \<^verbatim>\<open>strip_def\<close>, used for a user macro called without brackets, is
  \<^verbatim>\<open>sub_args\<close> with no argument collected: every parameter \<open>$1\<close> to \<open>$9\<close>
  is replaced by the empty string and every other byte, \<open>$0\<close> and a final \<open>$\<close>
  included, is kept.\<close>
theorem strip_def_sub_args: "strip_def d = sub_args d []"
proof (induction d rule: strip_def.induct)
  case 1
  then show ?case by simp
next
  case (2 ch s)
  then show ?case by (cases s) auto
qed

lemma str_to_num_valid:
  "a = [] \<or> str_to_num a \<noteq> None \<Longrightarrow> a \<noteq> [] \<Longrightarrow> \<exists>n. str_to_num a = Some n \<and> unat n = dec_val a"
  using str_to_num_Some_unat by blast

lemma arith_fold_add:
  assumes "\<forall>a \<in> set as. a = [] \<or> str_to_num a \<noteq> None"
  shows "arith_fold add_step nm as w =
    (if unat w + (\<Sum>a\<leftarrow>as. dec_val a) < 2 ^ 64
     then Inr (word_of_nat (unat w + (\<Sum>a\<leftarrow>as. dec_val a)))
     else Inl (ArithOverflow ''add''))"
  using assms
proof (induction as arbitrary: w)
  case Nil
  then show ?case using unat_size_t_less [of w] by simp
next
  case (Cons a as)
  then have ih: "\<And>w. arith_fold add_step nm as w =
    (if unat w + (\<Sum>a\<leftarrow>as. dec_val a) < 2 ^ 64
     then Inr (word_of_nat (unat w + (\<Sum>a\<leftarrow>as. dec_val a)))
     else Inl (ArithOverflow ''add''))" by simp
  show ?case
  proof (cases "a = []")
    case True
    moreover have "dec_val [] = 0" by (simp add: dec_val_def)
    ultimately show ?thesis by (simp add: ih)
  next
    case False
    with Cons.prems obtain n where n: "str_to_num a = Some n" "unat n = dec_val a"
      using str_to_num_Some_unat by fastforce
    show ?thesis
    proof (cases "AOF w n")
      case True
      then show ?thesis using False n by (simp add: add_step_def AOF_iff)
    next
      case nof: False
      then have u: "unat (w + n) = unat w + unat n" by (rule unat_add_no_AOF)
      from nof have "add_step w n = Inr (w + n)" by (simp add: add_step_def)
      with u False n show ?thesis by (simp add: ih add.assoc)
    qed
  qed
qed

lemma arith_fold_sub:
  assumes "\<forall>a \<in> set as. a = [] \<or> str_to_num a \<noteq> None"
  shows "arith_fold sub_step nm as w =
    (if (\<Sum>a\<leftarrow>as. dec_val a) \<le> unat w
     then Inr (word_of_nat (unat w - (\<Sum>a\<leftarrow>as. dec_val a)))
     else Inl SubUnderflow)"
  using assms
proof (induction as arbitrary: w)
  case Nil
  then show ?case by simp
next
  case (Cons a as)
  then have ih: "\<And>w. arith_fold sub_step nm as w =
    (if (\<Sum>a\<leftarrow>as. dec_val a) \<le> unat w
     then Inr (word_of_nat (unat w - (\<Sum>a\<leftarrow>as. dec_val a)))
     else Inl SubUnderflow)" by simp
  show ?case
  proof (cases "a = []")
    case True
    moreover have "dec_val [] = 0" by (simp add: dec_val_def)
    ultimately show ?thesis by (simp add: ih)
  next
    case False
    with Cons.prems obtain n where n: "str_to_num a = Some n" "unat n = dec_val a"
      using str_to_num_Some_unat by fastforce
    show ?thesis
    proof (cases "n > w")
      case True
      then have "unat w < dec_val a" using n by (simp add: word_less_nat_alt)
      with True False n show ?thesis by (simp add: sub_step_def)
    next
      case nuf: False
      then have u: "unat (w - n) = unat w - unat n" by (simp add: unat_sub not_less)
      from nuf have "sub_step w n = Inr (w - n)" by (simp add: sub_step_def)
      moreover have "unat n \<le> unat w" using nuf by (simp add: word_le_nat_alt not_less)
      ultimately show ?thesis using u False n by (auto simp add: ih diff_diff_add)
    qed
  qed
qed

lemma translit_delete_at:
  "translit_delete m r (of_char c) = (if c \<in> set r then 0 else m (of_char c))"
  unfolding translit_delete_def
  by (induction r arbitrary: m) auto

lemma strstr_single_None: "strstr h [c] = None \<longleftrightarrow> c \<notin> set h"
  by (induction h) auto

lemma strstr_single_Some: "strstr h [c] = Some i \<Longrightarrow> c \<in> set h"
  using strstr_single_None [of h c] by auto

lemma translit_pairs_delete:
  "distinct as \<Longrightarrow> \<forall>a \<in> set as. m (of_char a) = -1 \<Longrightarrow>
   (case translit_pairs m as bs of (m', r) \<Rightarrow> translit_delete m' r) (of_char c) =
   (case strstr as [c] of
      None \<Rightarrow> m (of_char c)
    | Some i \<Rightarrow> if i < length bs then uchar (bs ! i) else 0)"
proof (induction m as bs rule: translit_pairs.induct)
  case (1 m a as b bs)
  let ?m' = "m(of_char a := uchar b)"
  have m': "(if m (of_char a) = - 1 then ?m' else m) = ?m'" using "1.prems" by simp
  have "\<forall>x \<in> set as. ?m' (of_char x) = -1" using "1.prems" by auto
  moreover have "distinct as" using "1.prems" by simp
  ultimately have ih: "(case translit_pairs ?m' as bs of (m', r) \<Rightarrow> translit_delete m' r) (of_char c) =
     (case strstr as [c] of None \<Rightarrow> ?m' (of_char c)
      | Some i \<Rightarrow> if i < length bs then uchar (bs ! i) else 0)"
    using "1.IH" [unfolded m'] by blast
  show ?case
  proof (cases "c = a")
    case True
    with "1.prems" have "strstr as [c] = None" by (simp add: strstr_single_None)
    with True ih "1.prems" show ?thesis by simp
  next
    case False
    then have "of_char c \<noteq> (of_char a :: nat)" by simp
    with False ih "1.prems" show ?thesis by (simp split: option.splits)
  qed
qed (auto simp add: translit_delete_at strstr_single_None dest: strstr_single_Some split: option.splits)

lemma translit_map_at:
  "distinct from \<Longrightarrow> translit_map from to (of_char c) =
     (case strstr from [c] of
        None \<Rightarrow> -1
      | Some i \<Rightarrow> if i < length to then uchar (to ! i) else 0)"
  using translit_pairs_delete [of "from" "\<lambda>_. -1" "to" c] by (simp add: translit_map_def)

text \<open>C12: when the \<open>from\<close> string of \<^verbatim>\<open>translit\<close> has no repeated byte,
  \<open>to\<close> is a C string, and neither \<open>from\<close> nor the string contains byte 0xFF (the
  index past the 255-slot map; no argument the engine collects contains it, by
  \<open>Input.token_no_ff\<close>), the map computes the textbook transliteration: a byte of
  \<open>from\<close> at position \<open>i\<close> becomes byte \<open>i\<close> of \<open>to\<close>, or is deleted when
  \<open>to\<close> is shorter; other bytes pass through.\<close>
theorem translit_refines:
  assumes "distinct from" and "CHR 0x00 \<notin> set to"
    and "CHR 0xFF \<notin> set from" and "CHR 0xFF \<notin> set s"
  shows "translit s from to = Some (translit_spec s from to)"
proof -
  have "\<And>c. c \<in> set s \<Longrightarrow>
      (let x = translit_map from to (of_char c) in
         if x = -1 then [c] else if x \<noteq> 0 then [to_char x] else []) =
      (case strstr from [c] of None \<Rightarrow> [c] | Some i \<Rightarrow> if i < length to then [to ! i] else [])"
  proof -
    fix c
    show "?thesis c"
    proof (cases "strstr from [c]")
      case None
      then show ?thesis using assms(1) by (simp add: translit_map_at)
    next
      case (Some i)
      have "i < length to \<Longrightarrow> to ! i \<noteq> CHR 0x00" using assms(2) by (auto dest: nth_mem)
      with Some assms(1) show ?thesis by (simp add: translit_map_at)
    qed
  qed
  then show ?thesis using assms(3,4)
    by (simp add: translit_def translit_apply_def translit_spec_def cong: map_cong)
qed

theorem translit_refines_witness:
  "distinct ''abcs'' \<and> CHR 0x00 \<notin> set ''xyz'' \<and> CHR 0xFF \<notin> set ''abcs'' \<and> CHR 0xFF \<notin> set ''bananas''
   \<and> translit ''bananas'' ''abcs'' ''xyz'' = Some (translit_spec ''bananas'' ''abcs'' ''xyz'')
   \<and> translit_spec ''bananas'' ''abcs'' ''xyz'' = ''yxnxnx''"
  using translit_refines [of "''abcs''" "''xyz''" "''bananas''"] by (simp add: translit_spec_def)

lemma translit_pairs_rest: "snd (translit_pairs m as bs) = drop (length bs) as"
  by (induction m as bs rule: translit_pairs.induct) simp_all

text \<open>C35: every byte of \<open>from\<close> beyond the length of \<open>to\<close> is deleted from the
  string, also when an earlier occurrence of it in \<open>from\<close> was paired with a byte of
  \<open>to\<close>: the second loop overwrites the first mapping, so
  \<^verbatim>\<open>translit(ab, aba, x)\<close> gives the empty string where first-occurrence
  transliteration gives \<^verbatim>\<open>x\<close>.\<close>
theorem translit_deletes_unpaired:
  assumes "c \<in> set (drop (length to) from)"
    and "CHR 0xFF \<notin> set from" and "CHR 0xFF \<notin> set (c # s)"
  shows "translit (c # s) from to = translit s from to"
proof -
  obtain m r where p: "translit_pairs (\<lambda>_. -1) from to = (m, r)" by fastforce
  then have "r = drop (length to) from" using translit_pairs_rest [of "\<lambda>_. -1" "from" to] by simp
  with assms(1) p have "translit_map from to (of_char c) = 0"
    by (simp add: translit_map_def translit_delete_at)
  with assms(2,3) show ?thesis by (simp add: translit_def translit_apply_def)
qed

theorem translit_deletes_unpaired_witness:
  "CHR ''a'' \<in> set (drop (length ''x'') ''aba'') \<and> CHR 0xFF \<notin> set ''aba'' \<and> CHR 0xFF \<notin> set ''ab''
   \<and> translit ''ab'' ''aba'' ''x'' = translit ''b'' ''aba'' ''x''
   \<and> translit ''ab'' ''aba'' ''x'' = Some [] \<and> translit_spec ''ab'' ''aba'' ''x'' = ''x''"
proof -
  have h: "CHR ''a'' \<in> set (drop (length ''x'') ''aba'')" "CHR 0xFF \<notin> set ''aba''" "CHR 0xFF \<notin> set (CHR ''a'' # ''b'')"
    by simp_all
  have e: "translit ''b'' ''aba'' ''x'' = Some []" "translit_spec ''ab'' ''aba'' ''x'' = ''x''"
    by (simp_all add: m4_eval translit_spec_def)
  show ?thesis using translit_deletes_unpaired [OF h] e by simp
qed

text \<open>C10: \<^verbatim>\<open>add\<close> with valid (or empty) arguments returns their exact sum when it
  fits in 64 bits and fails with \<^verbatim>\<open>add: Integer overflow\<close> otherwise: the
  \<^verbatim>\<open>AOF\<close> test at every step never lets the accumulator wrap.\<close>
theorem bi_add_eq:
  assumes "\<forall>a \<in> set (args_from args 1). a = [] \<or> str_to_num a \<noteq> None"
  shows "bi_add args =
    (if (\<Sum>a\<leftarrow>args_from args 1. dec_val a) < 2 ^ 64
     then Inr (word_of_nat (\<Sum>a\<leftarrow>args_from args 1. dec_val a))
     else Inl (ArithOverflow ''add''))"
  using arith_fold_add [OF assms, of "''add''" 0] by (simp add: bi_add_def)

theorem bi_add_eq_witness:
  "list_all (\<lambda>a. a = [] \<or> str_to_num a \<noteq> None) (args_from [''18446744073709551615'', ''1''] 1)
   \<and> bi_add [''18446744073709551615'', ''1''] = Inl (ArithOverflow ''add'')
   \<and> bi_add [''2'', '''', ''40''] = Inr 42"
proof -
  have h1: "\<forall>a \<in> set (args_from [''18446744073709551615'', ''1''] 1). a = [] \<or> str_to_num a \<noteq> None"
    unfolding args_from_def upt_eval by (simp add: m4_eval)
  have h2: "\<forall>a \<in> set (args_from [''2'', '''', ''40''] 1). a = [] \<or> str_to_num a \<noteq> None"
    unfolding args_from_def upt_eval by (simp add: m4_eval)
  show ?thesis
    using bi_add_eq [OF h1] bi_add_eq [OF h2] h1 unfolding list_all_iff args_from_def upt_eval
    by (simp add: m4_eval dec_val_def)
qed

text \<open>C11: \<^verbatim>\<open>sub\<close> with a valid first argument and valid (or empty) further
  arguments returns the exact difference when it is not negative and fails with
  \<^verbatim>\<open>sub: Integer underflow\<close> otherwise.\<close>
theorem bi_sub_eq:
  assumes "str_to_num (arg args 1) = Some w"
    and "\<forall>a \<in> set (args_from args 2). a = [] \<or> str_to_num a \<noteq> None"
  shows "bi_sub args =
    (if (\<Sum>a\<leftarrow>args_from args 2. dec_val a) \<le> unat w
     then Inr (word_of_nat (unat w - (\<Sum>a\<leftarrow>args_from args 2. dec_val a)))
     else Inl SubUnderflow)"
proof -
  have "arg args 1 \<noteq> []" using assms(1) by (auto simp add: str_to_num_def)
  with assms show ?thesis
    by (simp add: bi_sub_def bi_fold1_def arith_fold_sub [OF assms(2)])
qed

theorem bi_sub_eq_witness:
  "str_to_num ''10'' = Some 10
   \<and> list_all (\<lambda>a. a = [] \<or> str_to_num a \<noteq> None) (args_from [''10'', ''3'', ''8''] 2)
   \<and> bi_sub [''10'', ''3'', ''8''] = Inl SubUnderflow"
proof -
  have h0: "str_to_num (arg [''10'', ''3'', ''8''] 1) = Some 10" by (simp add: m4_eval)
  have h1: "\<forall>a \<in> set (args_from [''10'', ''3'', ''8''] 2). a = [] \<or> str_to_num a \<noteq> None"
    unfolding args_from_def upt_eval by (simp add: m4_eval)
  show ?thesis
    using bi_sub_eq [OF h0 h1] h0 h1 unfolding list_all_iff args_from_def upt_eval
    by (simp add: m4_eval dec_val_def)
qed

lemma AOF_1_iff: "AOF n 1 \<longleftrightarrow> n = SIZE_MAX"
proof -
  have a: "AOF n 1 \<longleftrightarrow> 18446744073709551615 \<le> unat n" by (simp add: AOF_iff)
  have b: "unat n < 18446744073709551616" using unat_size_t_less [of n] by simp
  from a b have "AOF n 1 \<longleftrightarrow> unat n = unat SIZE_MAX" by simp linarith
  then show ?thesis by (simp add: word_unat_eq_iff)
qed

text \<open>C13: \<^verbatim>\<open>substr(s, w, n)\<close> of a non-empty \<open>s\<close> with valid numbers pushes
  back the \<open>n\<close> bytes of \<open>s\<close> from offset \<open>w\<close> (fewer at the end, none when
  \<open>w\<close> is out of range), except that \<open>n = SIZE_MAX\<close> with \<open>w\<close> in range
  quits.\<close>
theorem bi_substr_eq:
  assumes "arg args 1 \<noteq> []" and "str_to_num (arg args 2) = Some w"
    and "str_to_num (arg args 3) = Some n"
  shows "bi_substr args =
    (if unat w < length (arg args 1) \<and> n = SIZE_MAX then Inl SubstrOverflow
     else Inr (take (unat n) (drop (unat w) (arg args 1))))"
proof -
  have "take (min (length (arg args 1)) (unat n)) (drop (unat w) (arg args 1)) =
        take (unat n) (drop (unat w) (arg args 1))"
    by (simp add: min_def)
  with assms show ?thesis by (simp add: bi_substr_def AOF_1_iff Let_def)
qed

theorem bi_substr_eq_witness:
  "str_to_num ''2'' = Some 2 \<and> str_to_num ''4'' = Some 4
   \<and> bi_substr [''elephant'', ''2'', ''4''] = Inr ''epha''"
proof -
  have h: "arg [''elephant'', ''2'', ''4''] 1 \<noteq> []"
      "str_to_num (arg [''elephant'', ''2'', ''4''] 2) = Some 2"
      "str_to_num (arg [''elephant'', ''2'', ''4''] 3) = Some 4"
    by (simp_all add: m4_eval)
  show ?thesis using bi_substr_eq [OF h] h by (simp add: m4_eval)
qed

lemma all_le_Suc_split: "(\<forall>i \<le> Suc m. Q i) \<longleftrightarrow> Q 0 \<and> (\<forall>i \<le> m. Q (Suc i))"
proof
  assume "\<forall>i \<le> Suc m. Q i"
  then show "Q 0 \<and> (\<forall>i \<le> m. Q (Suc i))" by simp
next
  assume q: "Q 0 \<and> (\<forall>i \<le> m. Q (Suc i))"
  show "\<forall>i \<le> Suc m. Q i"
  proof (intro allI impI)
    fix i
    assume "i \<le> Suc m"
    with q show "Q i" by (cases i) auto
  qed
qed

lemma strstr_None_iff: "strstr h n = None \<longleftrightarrow> (\<forall>i \<le> length h. take (length n) (drop i h) \<noteq> n)"
  by (induction h) (simp_all add: all_le_Suc_split)

lemma strstr_Some:
  "strstr h n = Some i \<Longrightarrow>
     i \<le> length h \<and> take (length n) (drop i h) = n \<and> (\<forall>j < i. take (length n) (drop j h) \<noteq> n)"
proof (induction h arbitrary: i)
  case Nil
  then show ?case by (simp split: if_splits)
next
  case (Cons c h)
  show ?case
  proof (cases "take (length n) (c # h) = n")
    case True
    with Cons.prems show ?thesis by simp
  next
    case False
    with Cons.prems obtain i' where i: "i = Suc i'" and s: "strstr h n = Some i'" by auto
    from Cons.IH [OF s] False i show ?thesis
      by (auto simp add: less_Suc_eq_0_disj)
  qed
qed

text \<open>C14: \<^verbatim>\<open>index(s, t)\<close> pushes back the first offset at which \<open>t\<close> occurs in
  \<open>s\<close>, or \<open>-1\<close> when it does not occur.\<close>
theorem bi_index_eq:
  "bi_index args =
     (let h = arg args 1; n = arg args 2 in
      if \<exists>i \<le> length h. take (length n) (drop i h) = n
      then dec_str (LEAST i. take (length n) (drop i h) = n) else ''-1'')"
proof (cases "strstr (arg args 1) (arg args 2)")
  case None
  then have "\<not> (\<exists>i \<le> length (arg args 1). take (length (arg args 2)) (drop i (arg args 1)) = arg args 2)"
    by (simp add: strstr_None_iff)
  then show ?thesis unfolding bi_index_def Let_def None by (auto simp add: fmt_minus1_def)
next
  case (Some i)
  note p = strstr_Some [OF Some]
  have "(LEAST i. take (length (arg args 2)) (drop i (arg args 1)) = arg args 2) = i"
    using p by (intro Least_equality) (auto simp add: not_less [symmetric])
  with Some p show ?thesis by (auto simp add: bi_index_def Let_def)
qed

end
