(* ===== verification/Engine.thy ===== *)
theory Engine
  imports SymTab Input Builtins
begin

text \<open>
  The macro engine: the state that \<^verbatim>\<open>main\<close> of \<^verbatim>\<open>src/m4.c\<close> keeps in local
  variables, one iteration of its \<^verbatim>\<open>while (1)\<close> loop as the step function
  \<open>m4_step\<close>, the label \<^verbatim>\<open>end_of_input\<close>, and a run of the loop bounded by fuel.

  State (\<open>m4_state\<close>): the input stream, the files readable by \<^verbatim>\<open>include\<close>
  (the regular files of the file system, by name), the hash table \<^verbatim>\<open>ht\<close>, the
  call stack of \<^verbatim>\<open>struct mcall\<close> frames (head = innermost call),
  \<^verbatim>\<open>quote_on\<close> and \<^verbatim>\<open>quote_depth\<close> (a \<open>size_t\<close>, so it wraps),
  \<^verbatim>\<open>act_div\<close>, the eleven diversion buffers (10 is the \<open>-1\<close> sink), the two
  quote characters, and what has been written to standard output and standard error.
  The C pointer \<^verbatim>\<open>output\<close> is always reset by \<^verbatim>\<open>SET_OUTPUT\<close> after the
  stack or \<^verbatim>\<open>act_div\<close> changes, so it is computed here from the stack and
  \<^verbatim>\<open>act_div\<close> (\<open>put_str\<close>).

  A step either continues (\<open>Cont\<close>), jumps to \<^verbatim>\<open>end_of_input\<close>
  (\<open>Eof\<close>, when a \<^verbatim>\<open>READ_TOKEN\<close> meets the end of the input, also inside
  \<^verbatim>\<open>EAT_WS\<close> and \<^verbatim>\<open>DNL\<close>), or quits with an error (\<open>Fail\<close>, also
  when a read fails). \<open>terminate_args_reads\<close> lists the argument slots that
  \<^verbatim>\<open>terminate_args\<close> reads before a built-in runs.
\<close>

record mcall =
  mname :: "byte list"
  mdef :: "byte list option"
  bracket_depth :: nat
  act_arg :: nat
  arg_bufs :: "byte list list"

record m4_state =
  ins :: istate
  files :: "byte list \<rightharpoonup> byte list"
  ht :: htable
  stack :: "mcall list"
  quote_on :: bool
  quote_depth :: size_t
  act_div :: nat
  diversion :: "byte list list"
  left_quote :: byte
  right_quote :: byte
  out :: "byte list"
  err :: "byte list"

datatype step_res = Cont m4_state | Eof m4_state | Fail m4_error m4_state

datatype outcome = Exit_ok m4_state | Exit_fail m4_error m4_state

subsection \<open>Output and input of the engine\<close>

text \<open>An update of the innermost call frame (\<^verbatim>\<open>stack->...\<close>).\<close>
definition map_top :: "(mcall \<Rightarrow> mcall) \<Rightarrow> m4_state \<Rightarrow> m4_state" where
  "map_top f st = st\<lparr>stack := (case stack st of [] \<Rightarrow> [] | m # ms \<Rightarrow> f m # ms)\<rparr>"

text \<open>The buffer that \<^verbatim>\<open>output\<close> points to: a diversion, or the argument buffer
  \<^verbatim>\<open>arg_buf[k]\<close> of the innermost call.\<close>
datatype out_target = DivBuf nat | ArgBuf nat

text \<open>\<^verbatim>\<open>#define SET_OUTPUT\<close>: the argument being collected by the innermost call, or
  the active diversion when no call is open.\<close>
definition set_output :: "m4_state \<Rightarrow> out_target" where
  "set_output st = (case stack st of [] \<Rightarrow> DivBuf (act_div st) | m # ms \<Rightarrow> ArgBuf (act_arg m))"

text \<open>\<^verbatim>\<open>put_str(output, s)\<close> on the buffer chosen by \<^verbatim>\<open>SET_OUTPUT\<close>;
  \<^verbatim>\<open>arg_buf[k]\<close> is element \<open>k - 1\<close> of \<open>arg_bufs\<close>.\<close>
definition put_str :: "byte list \<Rightarrow> m4_state \<Rightarrow> m4_state" where
  "put_str s st =
     (case set_output st of
        DivBuf n \<Rightarrow> st\<lparr>diversion := (diversion st)[n := diversion st ! n @ s]\<rparr>
      | ArgBuf k \<Rightarrow> map_top (\<lambda>m. m\<lparr>arg_bufs := (arg_bufs m)[k - 1 := arg_bufs m ! (k - 1) @ s]\<rparr>) st)"

text \<open>\<^verbatim>\<open>ungetstr(input, s)\<close>.\<close>
definition unget :: "byte list \<Rightarrow> m4_state \<Rightarrow> m4_state" where
  "unget s st = st\<lparr>ins := ungetstr s (ins st)\<rparr>"

text \<open>\<^verbatim>\<open>#define OUT_DIV(n)\<close>: write diversion \<open>n\<close> to standard output and empty it.\<close>
definition out_div :: "nat \<Rightarrow> m4_state \<Rightarrow> m4_state" where
  "out_div n st = st\<lparr>out := out st @ diversion st ! n, diversion := (diversion st)[n := []]\<rparr>"

text \<open>\<^verbatim>\<open>#define UNDIVERT_ALL\<close>: diversions 0 to 9 in order.\<close>
definition undivert_all :: "m4_state \<Rightarrow> m4_state" where
  "undivert_all st = fold out_div [0..<10] st"

text \<open>\<^verbatim>\<open>buf_dump_buf(DIV(act_div), DIV(n))\<close>: move diversion \<open>n\<close> to the end of the
  active one.\<close>
definition dump_div :: "nat \<Rightarrow> m4_state \<Rightarrow> m4_state" where
  "dump_div n st =
     st\<lparr>diversion := (diversion st)[act_div st := diversion st ! act_div st @ diversion st ! n, n := []]\<rparr>"

text \<open>\<^verbatim>\<open>#define ISMACRO(s)\<close>: a name starting like an identifier that is in the table.\<close>
definition is_macro :: "htable \<Rightarrow> byte list \<Rightarrow> entry option" where
  "is_macro tab s =
     (case s of
        [] \<Rightarrow> None
      | c # _ \<Rightarrow> if is_ident_start c then lookup_entry tab s else None)"

text \<open>\<^verbatim>\<open>#define DIVNUM\<close>\<close>
definition divnum_str :: "nat \<Rightarrow> byte list" where
  "divnum_str d = (if d = 10 then fmt_minus1 else dec_str d)"

text \<open>\<^verbatim>\<open>#define EAT_WS\<close>: read tokens while they are blanks, then push the first
  other token back; \<open>RdEof\<close> is the jump to \<^verbatim>\<open>end_of_input\<close> and \<open>RdErr\<close>
  the \<^verbatim>\<open>QUIT\<close> of \<^verbatim>\<open>READ_TOKEN\<close>. It ends because every token consumes input
  (\<open>getword_dec\<close>).\<close>
function eat_ws :: "istate \<Rightarrow> istate rd" where
  "eat_ws st =
     (case getword st of
        RdEof \<Rightarrow> RdEof
      | RdErr \<Rightarrow> RdErr
      | Rd (t, st') \<Rightarrow> if is_ws t then eat_ws st' else Rd (ungetstr t st'))"
  by pat_completeness auto
termination
  by (relation "measure isize") (auto dest: getword_dec)

text \<open>\<^verbatim>\<open>#define DNL\<close>: read tokens up to and including a newline.\<close>
function dnl :: "istate \<Rightarrow> istate rd" where
  "dnl st =
     (case getword st of
        RdEof \<Rightarrow> RdEof
      | RdErr \<Rightarrow> RdErr
      | Rd (t, st') \<Rightarrow> if t = [CHR 0x0A] then Rd st' else dnl st')"
  by pat_completeness auto
termination
  by (relation "measure isize") (auto dest: getword_dec)

text \<open>The outcome of a read inside the loop: \<^verbatim>\<open>goto end_of_input\<close> or \<^verbatim>\<open>QUIT\<close>.\<close>
definition read_fail :: "'a rd \<Rightarrow> m4_state \<Rightarrow> step_res" where
  "read_fail r st = (if r = RdErr then Fail ReadFailed st else Eof st)"

text \<open>\<^verbatim>\<open>#define DNL\<close> inside the engine.\<close>
definition do_dnl :: "m4_state \<Rightarrow> step_res" where
  "do_dnl st = (case dnl (ins st) of Rd i \<Rightarrow> Cont (st\<lparr>ins := i\<rparr>) | r \<Rightarrow> read_fail r st)"

text \<open>\<^verbatim>\<open>#define EAT_WS\<close> inside the engine.\<close>
definition do_eat_ws :: "m4_state \<Rightarrow> step_res" where
  "do_eat_ws st = (case eat_ws (ins st) of Rd i \<Rightarrow> Cont (st\<lparr>ins := i\<rparr>) | r \<Rightarrow> read_fail r st)"

text \<open>A built-in that pushes its result back or fails.\<close>
definition push_result :: "m4_error + byte list \<Rightarrow> m4_state \<Rightarrow> step_res" where
  "push_result r st = (case r of Inl e \<Rightarrow> Fail e st | Inr s \<Rightarrow> Cont (unget s st))"

definition push_num :: "m4_error + size_t \<Rightarrow> m4_state \<Rightarrow> step_res" where
  "push_num r st = (case r of Inl e \<Rightarrow> Fail e st | Inr w \<Rightarrow> Cont (unget (fmt_lu w) st))"

subsection \<open>Built-ins with arguments\<close>

text \<open>\<^verbatim>\<open>dumpdef\<close>: one line per non-empty argument on standard error.\<close>
definition dumpdef_text :: "htable \<Rightarrow> byte list list \<Rightarrow> byte list" where
  "dumpdef_text tab args =
     concat (map (\<lambda>k. let a = arg args k in
                       case is_macro tab a of
                         Some e \<Rightarrow> a @ '': '' @ (case edef e of None \<Rightarrow> ''built-in'' | Some d \<Rightarrow> d) @ nl
                       | None \<Rightarrow> if a \<noteq> [] then a @ '': undefined'' @ nl else [])
                 [1..<10])"

definition errprint_text :: "byte list list \<Rightarrow> byte list" where
  "errprint_text args = concat (map (\<lambda>k. if arg args k \<noteq> [] then arg args k @ nl else []) [1..<10])"

text \<open>A single digit \<open>'1'..'9'\<close> naming a diversion for \<^verbatim>\<open>undivert\<close>.\<close>
definition undivert_target :: "byte list \<Rightarrow> nat option" where
  "undivert_target a =
     (if length a = 1 \<and> is_digit (hd a) \<and> hd a \<noteq> CHR ''0'' then Some (digit_val (hd a)) else None)"

text \<open>\<^verbatim>\<open>undivert(ids...)\<close>: from diversion 0 each named diversion goes to standard
  output; from another diversion it is appended to the active one, except the active
  one itself.\<close>
definition undivert_args :: "byte list list \<Rightarrow> m4_state \<Rightarrow> m4_state" where
  "undivert_args args st =
     fold (\<lambda>k st. case undivert_target (arg args k) of
                    None \<Rightarrow> st
                  | Some d \<Rightarrow>
                      if act_div st = 0 then out_div d st
                      else if d \<noteq> act_div st then dump_div d st else st)
          [1..<10] st"

text \<open>\<^verbatim>\<open>#define DIRSEP\<close>: the directory separator pushed back by \<^verbatim>\<open>dirsep\<close>
  (a slash; a backslash on Windows).\<close>
definition DIRSEP :: "byte list" where
  "DIRSEP = ''/''"

text \<open>\<^verbatim>\<open>#define PROCESS_BI_WITH_ARGS\<close>, run at the closing bracket of a built-in
  call, with the call's frame still on the stack.\<close>
definition bi_with_args :: "byte list \<Rightarrow> byte list list \<Rightarrow> m4_state \<Rightarrow> step_res" where
  "bi_with_args sn a st =
     (if sn = ''define'' then Cont (st\<lparr>ht := upsert_entry (ht st) (arg a 1) (Some (arg a 2))\<rparr>)
      else if sn = ''undefine'' then
        (case delete_entry (ht st) (arg a 1) of
           None \<Rightarrow> Fail UndefineUnknown st
         | Some h \<Rightarrow> Cont (st\<lparr>ht := h\<rparr>))
      else if sn = ''changequote'' then
        (if quotes_ok (arg a 1) (arg a 2)
         then Cont (st\<lparr>left_quote := hd (arg a 1), right_quote := hd (arg a 2)\<rparr>)
         else Fail ChangequoteInvalid st)
      else if sn = ''divert'' then
        (case divert_num (arg a 1) of
           None \<Rightarrow> Fail DivertInvalid st
         | Some d \<Rightarrow> Cont (st\<lparr>act_div := d\<rparr>))
      else if sn = ''dumpdef'' then Cont (st\<lparr>err := err st @ dumpdef_text (ht st) a\<rparr>)
      else if sn = ''errprint'' then Cont (st\<lparr>err := err st @ errprint_text a\<rparr>)
      else if sn = ''ifdef'' then
        Cont (unget (if is_macro (ht st) (arg a 1) \<noteq> None then arg a 2 else arg a 3) st)
      else if sn = ''ifelse'' then
        Cont (unget (if arg a 1 = arg a 2 then arg a 3 else arg a 4) st)
      else if sn = ''include'' then
        (case files st (arg a 1) of
           None \<Rightarrow> Fail (IncludeFailed (arg a 1)) st
         | Some c \<Rightarrow> Cont (unget c st))
      else if sn = ''len'' then Cont (unget (dec_str (length (arg a 1))) st)
      else if sn = ''index'' then Cont (unget (bi_index a) st)
      else if sn = ''translit'' then
        (case translit (arg a 1) (arg a 2) (arg a 3) of
           None \<Rightarrow> Fail TranslitOutOfRange st
         | Some r \<Rightarrow> Cont (unget r st))
      else if sn = ''substr'' then push_result (bi_substr a) st
      else if sn = ''undivert'' then Cont (undivert_args a st)
      else if sn = ''dnl'' then do_dnl st
      else if sn = ''divnum'' then Cont (unget (divnum_str (act_div st)) st)
      else if sn = ''incr'' then push_result (bi_incr a) st
      else if sn = ''htdist'' then Cont (st\<lparr>err := err st @ htdist (ht st)\<rparr>)
      else if sn = ''dirsep'' then Cont (unget DIRSEP st)
      else if sn = ''add'' then push_num (bi_add a) st
      else if sn = ''mult'' then push_num (bi_mult a) st
      else if sn = ''sub'' then push_num (bi_sub a) st
      else if sn = ''div'' then push_num (bi_div a) st
      else if sn = ''mod'' then push_num (bi_mod a) st
      else Cont st)"

subsection \<open>Built-ins without arguments\<close>

text \<open>\<^verbatim>\<open>#define PROCESS_BI_NO_ARGS\<close>: the built-ins that need arguments pass their
  name through to the output.\<close>
definition bi_no_args :: "byte list \<Rightarrow> m4_state \<Rightarrow> step_res" where
  "bi_no_args t st =
     (if t = ''dnl'' then do_dnl st
      else if t = ''divnum'' then Cont (unget (divnum_str (act_div st)) st)
      else if t = ''undivert'' then
        (if act_div st \<noteq> 0 then Fail UndivertNotDiv0 st else Cont (undivert_all st))
      else if t = ''divert'' then Cont (st\<lparr>act_div := 0\<rparr>)
      else if t = ''htdist'' then Cont (st\<lparr>err := err st @ htdist (ht st)\<rparr>)
      else if t = ''dirsep'' then Cont (unget DIRSEP st)
      else Cont (put_str t st))"

subsection \<open>The branches of the main loop\<close>

text \<open>The left quote: the outermost one is not copied.\<close>
definition left_quote_tok :: "byte list \<Rightarrow> m4_state \<Rightarrow> m4_state" where
  "left_quote_tok t st =
     (let st1 = st\<lparr>quote_on := True\<rparr>;
          st2 = (if quote_depth st1 \<noteq> 0 then put_str t st1 else st1)
      in st2\<lparr>quote_depth := quote_depth st2 + 1\<rparr>)"

text \<open>The right quote: copied only when nested; \<^verbatim>\<open>--quote_depth\<close> wraps at 0.\<close>
definition right_quote_tok :: "byte list \<Rightarrow> m4_state \<Rightarrow> m4_state" where
  "right_quote_tok t st =
     (let st1 = (if quote_depth st > 1 then put_str t st else st);
          d = quote_depth st1 - 1
      in st1\<lparr>quote_depth := d, quote_on := (if d = 0 then False else quote_on st1)\<rparr>)"

text \<open>\<^verbatim>\<open>struct mcall *init_mcall(void)\<close>: a zeroed frame (\<^verbatim>\<open>calloc\<close>)
  with only the buffer of argument 1 allocated and \<^verbatim>\<open>act_arg = 1\<close>.\<close>
definition init_mcall :: mcall where
  "init_mcall = \<lparr>mname = [], mdef = None, bracket_depth = 0, act_arg = 1, arg_bufs = [[]]\<rparr>"

text \<open>\<^verbatim>\<open>int stack_on_mcall(struct mcall **stack)\<close>: a new frame linked on as the
  head.\<close>
definition stack_on_mcall :: "mcall list \<Rightarrow> mcall list" where
  "stack_on_mcall stk = init_mcall # stk"

text \<open>A macro name followed by \<open>(\<close>: \<^verbatim>\<open>stack_on_mcall\<close>, then the name, a
  copy of the definition (none for a built-in) and the first bracket counted; then \<^verbatim>\<open>EAT_WS\<close>.\<close>
definition start_call :: "byte list \<Rightarrow> entry \<Rightarrow> m4_state \<Rightarrow> step_res" where
  "start_call t e st =
     do_eat_ws (map_top (\<lambda>m. m\<lparr>mname := t, mdef := edef e, bracket_depth := bracket_depth m + 1\<rparr>)
                  (st\<lparr>stack := stack_on_mcall (stack st)\<rparr>))"

text \<open>A token that names a macro: look at the next token.\<close>
definition macro_token :: "byte list \<Rightarrow> entry \<Rightarrow> m4_state \<Rightarrow> step_res" where
  "macro_token t e st =
     (case getword (ins st) of
        Rd (nt, i) \<Rightarrow>
          let st1 = st\<lparr>ins := i\<rparr> in
          if nt = ''('' then start_call t e st1
          else
            let st2 = unget nt st1 in
            (case edef e of
               None \<Rightarrow> bi_no_args t st2
             | Some d \<Rightarrow> Cont (unget (strip_def d) st2))
      | r \<Rightarrow> read_fail r st)"

text \<open>\<^verbatim>\<open>delete_stack_head\<close>\<close>
definition pop_call :: "m4_state \<Rightarrow> m4_state" where
  "pop_call st = st\<lparr>stack := tl (stack st)\<rparr>"

text \<open>\<^verbatim>\<open>int terminate_args(struct mcall *stack)\<close>, run before a built-in with
  arguments: the slots \<^verbatim>\<open>arg_buf[j]\<close> that the loop reads, from \<open>j = 1\<close>. The
  condition \<^verbatim>\<open>*(stack->arg_buf + j) != NULL && j < 10\<close> reads the slot before it
  tests the index; slot \<open>j\<close> is allocated exactly for \<open>1 \<le> j \<le> act_arg\<close>, and
  the array has the ten slots \<open>0..9\<close>.\<close>
function terminate_args_reads :: "nat \<Rightarrow> nat \<Rightarrow> nat list" where
  "terminate_args_reads act j =
     j # (if 1 \<le> j \<and> j \<le> act \<and> j < 10 then terminate_args_reads act (Suc j) else [])"
  by pat_completeness auto
termination by (relation "measure (\<lambda>(act, j). 10 - j)") auto

text \<open>\<^verbatim>\<open>void free_mcall(struct mcall *m)\<close>: the argument slots whose buffers the
  loop \<^verbatim>\<open>while (*(m->arg_buf + j) != NULL && j < 10) free_buf(...)\<close> releases, from
  \<open>j = 1\<close> (the name and definition are released before it, the frame after it).\<close>
function free_mcall_frees :: "nat \<Rightarrow> nat \<Rightarrow> nat list" where
  "free_mcall_frees act j =
     (if 1 \<le> j \<and> j \<le> act \<and> j < 10 then j # free_mcall_frees act (Suc j) else [])"
  by pat_completeness auto
termination by (relation "measure (\<lambda>(act, j). 10 - j)") auto

text \<open>\<^verbatim>\<open>void free_stack(struct mcall *stack)\<close>: \<^verbatim>\<open>free_mcall\<close> on every frame,
  innermost first; the argument slots released for each.\<close>
definition free_stack :: "mcall list \<Rightarrow> nat list list" where
  "free_stack stk = map (\<lambda>m. free_mcall_frees (act_arg m) 1) stk"

text \<open>\<^verbatim>\<open>ARG_END\<close>: the closing bracket of the innermost call. A built-in runs with
  its frame on the stack; a user macro's body, with its parameters substituted, is pushed
  back onto the input; then \<^verbatim>\<open>REMOVE_SH\<close>.\<close>
definition end_call :: "mcall \<Rightarrow> mcall list \<Rightarrow> m4_state \<Rightarrow> step_res" where
  "end_call m ms st =
     (let st1 = map_top (\<lambda>m. m\<lparr>bracket_depth := bracket_depth m - 1\<rparr>) st in
      case mdef m of
        None \<Rightarrow>
          (case bi_with_args (mname m) (arg_bufs m) st1 of
             Cont st2 \<Rightarrow> Cont (pop_call st2)
           | r \<Rightarrow> r)
      | Some d \<Rightarrow> Cont (pop_call (unget (sub_args d (arg_bufs m)) st1)))"

text \<open>\<^verbatim>\<open>ARG_COMMA\<close>: a new argument buffer, at most nine.\<close>
definition arg_comma :: "mcall \<Rightarrow> mcall list \<Rightarrow> m4_state \<Rightarrow> step_res" where
  "arg_comma m ms st =
     (if act_arg m = 9 then Fail TooManyArgs st
      else do_eat_ws (map_top (\<lambda>m. m\<lparr>act_arg := act_arg m + 1, arg_bufs := arg_bufs m @ [[]]\<rparr>) st))"

text \<open>A token that is neither a quote, quoted, nor a macro name: the tests
  \<^verbatim>\<open>ARG_END\<close>, \<^verbatim>\<open>ARG_COMMA\<close>, \<^verbatim>\<open>NESTED_CB\<close>, \<^verbatim>\<open>NESTED_OB\<close> in
  the source's order, else pass the token through.\<close>
definition plain_token :: "byte list \<Rightarrow> m4_state \<Rightarrow> step_res" where
  "plain_token t st =
     (case stack st of
        [] \<Rightarrow> Cont (put_str t st)
      | m # ms \<Rightarrow>
          if bracket_depth m = 1 \<and> t = '')'' then end_call m ms st
          else if bracket_depth m = 1 \<and> t = '','' then arg_comma m ms st
          else if bracket_depth m > 1 \<and> t = '')'' then
            Cont (map_top (\<lambda>m. m\<lparr>bracket_depth := bracket_depth m - 1\<rparr>) (put_str t st))
          else if t = ''('' then
            Cont (map_top (\<lambda>m. m\<lparr>bracket_depth := bracket_depth m + 1\<rparr>) (put_str t st))
          else Cont (put_str t st))"

text \<open>One iteration of the main loop: \<^verbatim>\<open>OUT_DIV(0)\<close>, \<^verbatim>\<open>READ_TOKEN\<close>, dispatch.\<close>
definition m4_step :: "m4_state \<Rightarrow> step_res" where
  "m4_step st0 =
     (let st = out_div 0 st0 in
      case getword (ins st) of
        Rd (t, i) \<Rightarrow>
          let st = st\<lparr>ins := i\<rparr> in
          if t = [left_quote st] then Cont (left_quote_tok t st)
          else if t = [right_quote st] then Cont (right_quote_tok t st)
          else if quote_on st then Cont (put_str t st)
          else (case is_macro (ht st) t of
                  Some e \<Rightarrow> macro_token t e st
                | None \<Rightarrow> plain_token t st)
      | r \<Rightarrow> read_fail r st)"

text \<open>The label \<^verbatim>\<open>end_of_input\<close>: the two checks, then \<^verbatim>\<open>UNDIVERT_ALL\<close>.\<close>
definition end_of_input :: "m4_state \<Rightarrow> outcome" where
  "end_of_input st =
     (if stack st \<noteq> [] then Exit_fail StackNotUnwound st
      else if quote_on st then Exit_fail QuotesNotExited st
      else Exit_ok (undivert_all st))"

text \<open>The loop with fuel: \<open>None\<close> when the fuel runs out before the program exits.\<close>
fun run :: "nat \<Rightarrow> m4_state \<Rightarrow> outcome option" where
  "run 0 st = None"
| "run (Suc n) st =
     (case m4_step st of
        Cont st' \<Rightarrow> run n st'
      | Eof st' \<Rightarrow> Some (end_of_input st')
      | Fail e st' \<Rightarrow> Some (Exit_fail e st'))"

subsection \<open>Start-up and the observable result\<close>

text \<open>The start of \<^verbatim>\<open>main\<close>: built-ins registered, default quotes, diversion 0
  active. With command-line files, their contents are loaded so that the first file is
  read first and standard input is not read; a file that is not a regular file makes
  \<^verbatim>\<open>main\<close> quit (\<open>None\<close>).\<close>
definition init_state :: "(byte list \<rightharpoonup> byte list) \<Rightarrow> byte list list \<Rightarrow> byte list \<Rightarrow> m4_state option" where
  "init_state fs argv sin =
     (if list_all (\<lambda>f. fs f \<noteq> None) argv then
        Some \<lparr>ins = \<lparr>inp = concat (map (\<lambda>f. the (fs f)) argv), read_stdin = (argv = []), stdin = sin\<rparr>,
              files = fs, ht = init_ht, stack = [], quote_on = False, quote_depth = 0,
              act_div = 0, diversion = replicate 11 [], left_quote = CHR ''`'',
              right_quote = CHR 0x27, out = [], err = []\<rparr>
      else None)"

text \<open>Exit status, standard output and standard error of a finished run.\<close>
fun result :: "outcome \<Rightarrow> int \<times> byte list \<times> byte list" where
  "result (Exit_ok st) = (0, out st, err st)"
| "result (Exit_fail e st) = (1, out st, err st @ emsg e)"

definition m4_main :: "nat \<Rightarrow> (byte list \<rightharpoonup> byte list) \<Rightarrow> byte list list \<Rightarrow> byte list
    \<Rightarrow> (int \<times> byte list \<times> byte list) option" where
  "m4_main fuel fs argv sin =
     (case init_state fs argv sin of
        None \<Rightarrow> Some (1, [], [])
      | Some st \<Rightarrow> map_option result (run fuel st))"

subsection \<open>Evaluation on concrete input\<close>

lemma put_str_eq:
  "put_str s st =
     (case stack st of
        [] \<Rightarrow> st\<lparr>diversion := (diversion st)[act_div st := diversion st ! act_div st @ s]\<rparr>
      | m # ms \<Rightarrow>
          st\<lparr>stack := m\<lparr>arg_bufs := (arg_bufs m)[act_arg m - 1 := arg_bufs m ! (act_arg m - 1) @ s]\<rparr>
                       # ms\<rparr>)"
  by (simp add: put_str_def set_output_def map_top_def split: list.splits)

lemma start_call_eq:
  "start_call t e st =
     do_eat_ws (st\<lparr>stack := \<lparr>mname = t, mdef = edef e, bracket_depth = 1, act_arg = 1,
                              arg_bufs = [[]]\<rparr> # stack st\<rparr>)"
  by (simp add: start_call_def stack_on_mcall_def init_mcall_def map_top_def)

lemma eat_ws_eval [m4_eval]:
  "eat_ws \<lparr>inp = i, read_stdin = r, stdin = s\<rparr> =
     (case getword \<lparr>inp = i, read_stdin = r, stdin = s\<rparr> of
        RdEof \<Rightarrow> RdEof
      | RdErr \<Rightarrow> RdErr
      | Rd (t, st') \<Rightarrow> if is_ws t then eat_ws st' else Rd (ungetstr t st'))"
  by (rule eat_ws.simps)

lemma dnl_eval [m4_eval]:
  "dnl \<lparr>inp = i, read_stdin = r, stdin = s\<rparr> =
     (case getword \<lparr>inp = i, read_stdin = r, stdin = s\<rparr> of
        RdEof \<Rightarrow> RdEof
      | RdErr \<Rightarrow> RdErr
      | Rd (t, st') \<Rightarrow> if t = [CHR 0x0A] then Rd st' else dnl st')"
  by (rule dnl.simps)

lemma run_numeral [m4_eval]:
  "run (numeral k) st =
     (case m4_step st of
        Cont st' \<Rightarrow> run (pred_numeral k) st'
      | Eof st' \<Rightarrow> Some (end_of_input st')
      | Fail e st' \<Rightarrow> Some (Exit_fail e st'))"
  by (simp add: numeral_eq_Suc)

declare put_str_eq [m4_eval] DIRSEP_def [m4_eval] unget_def [m4_eval] out_div_def [m4_eval] undivert_all_def [m4_eval]
  dump_div_def [m4_eval] is_macro_def [m4_eval] divnum_str_def [m4_eval] do_dnl_def [m4_eval]
  do_eat_ws_def [m4_eval] push_result_def [m4_eval] push_num_def [m4_eval] dumpdef_text_def [m4_eval]
  errprint_text_def [m4_eval] undivert_target_def [m4_eval] undivert_args_def [m4_eval]
  bi_with_args_def [m4_eval] bi_no_args_def [m4_eval] left_quote_tok_def [m4_eval]
  right_quote_tok_def [m4_eval] start_call_eq [m4_eval] macro_token_def [m4_eval]
  map_top_def [m4_eval] pop_call_def [m4_eval] end_call_def [m4_eval] arg_comma_def [m4_eval]
  plain_token_def [m4_eval] m4_step_def [m4_eval] end_of_input_def [m4_eval]
  init_state_def [m4_eval] m4_main_def [m4_eval] read_fail_def [m4_eval]

subsection \<open>Fuel and quote depth\<close>

text \<open>More fuel never changes a finished run: the result of \<open>run\<close> with enough
  fuel is the result of the unbounded loop.\<close>
lemma run_mono: "run n st = Some r \<Longrightarrow> n \<le> m \<Longrightarrow> run m st = Some r"
proof (induction n arbitrary: st m)
  case 0
  then show ?case by simp
next
  case (Suc n)
  then obtain m' where m: "m = Suc m'" and le: "n \<le> m'" by (cases m) auto
  show ?case
  proof (cases "m4_step st")
    case (Cont st')
    with Suc.prems have "run n st' = Some r" by simp
    with Suc.IH le Cont m show ?thesis by simp
  next
    case (Eof st')
    with Suc.prems m show ?thesis by simp
  next
    case (Fail e st')
    with Suc.prems m show ?thesis by simp
  qed
qed

lemma terminate_args_reads_from:
  "1 \<le> j \<Longrightarrow> j \<le> 10 \<Longrightarrow> terminate_args_reads act j = [j..<Suc (min (Suc act) 10)] \<or> act < j"
proof (induction act j rule: terminate_args_reads.induct)
  case (1 act j)
  then show ?case
    by (cases "j \<le> act \<and> j < 10")
       (auto simp add: terminate_args_reads.simps [of act j] upt_rec [of j] min_def)
qed

lemma terminate_args_reads_eq: "terminate_args_reads act 1 = [1..<Suc (min (Suc act) 10)]"
proof (cases act)
  case 0
  then show ?thesis by (simp add: terminate_args_reads.simps)
next
  case (Suc k)
  then show ?thesis using terminate_args_reads_from [of 1 act] by auto
qed

text \<open>C20: \<^verbatim>\<open>terminate_args\<close> reads \<^verbatim>\<open>arg_buf[10]\<close>, one slot past the array,
  exactly when the call has nine arguments (the most \<^verbatim>\<open>ARG_COMMA\<close> allows); with fewer
  it stops at the first unallocated slot.\<close>
theorem terminate_args_out_of_bounds:
  "10 \<in> set (terminate_args_reads act 1) \<longleftrightarrow> 9 \<le> act"
proof -
  have "set (terminate_args_reads act 1) = {1..<Suc (min (Suc act) 10)}"
    by (simp only: terminate_args_reads_eq set_upt)
  then show ?thesis by (auto simp add: min_def simp del: terminate_args_reads.simps)
qed

text \<open>C31: a right quote read at quote depth 0 wraps the \<^verbatim>\<open>size_t\<close> counter
  \<^verbatim>\<open>quote_depth\<close> to \<^verbatim>\<open>SIZE_MAX\<close> and leaves quoting off, so the quote flag and
  the depth no longer agree.\<close>
theorem right_quote_wraps:
  assumes "quote_depth st = 0"
  shows "quote_depth (right_quote_tok t st) = SIZE_MAX
    \<and> quote_on (right_quote_tok t st) = quote_on st \<and> out (right_quote_tok t st) = out st"
  using assms by (simp add: right_quote_tok_def SIZE_MAX_def Let_def)

theorem right_quote_wraps_witness:
  "quote_depth (the (init_state Map.empty [] [])) = 0
   \<and> quote_depth (right_quote_tok [CHR 0x27] (the (init_state Map.empty [] []))) = SIZE_MAX
   \<and> \<not> quote_on (right_quote_tok [CHR 0x27] (the (init_state Map.empty [] [])))"
proof -
  have h: "quote_depth (the (init_state Map.empty [] [])) = 0"
    "\<not> quote_on (the (init_state Map.empty [] []))"
    by (simp_all add: init_state_def)
  show ?thesis using right_quote_wraps [OF h(1), of "[CHR 0x27]"] h by simp
qed

end
