(* ===== verification/EngineInv.thy ===== *)
theory EngineInv
  imports Engine
begin

text \<open>
  The invariant of the main loop of \<^verbatim>\<open>src/m4.c\<close> (spec section 8): every frame
  on the call stack has \<open>1 \<le> act_arg \<le> 9\<close>, one allocated argument buffer per
  argument, and \<open>bracket_depth \<ge> 1\<close>; \<open>act_div \<le> 10\<close> with eleven diversion
  buffers; the hash table keeps every name in its own bucket, once. Every step of the
  loop that continues keeps it, so it holds in every state reachable from the start.
  A built-in runs while the top frame's depth is already 0 (the source decrements before
  dispatching), so the lemmas about built-ins are stated for the frame-free part of the
  invariant together with "the stack is unchanged".
\<close>

definition frame_ok :: "mcall \<Rightarrow> bool" where
  "frame_ok m \<longleftrightarrow>
     1 \<le> act_arg m \<and> act_arg m \<le> 9 \<and> length (arg_bufs m) = act_arg m \<and> 1 \<le> bracket_depth m"

definition state_ok :: "m4_state \<Rightarrow> bool" where
  "state_ok st \<longleftrightarrow> act_div st \<le> 10 \<and> length (diversion st) = 11 \<and> ht_ok (ht st)"

definition m4_inv :: "m4_state \<Rightarrow> bool" where
  "m4_inv st \<longleftrightarrow> state_ok st \<and> list_all frame_ok (stack st)"

text \<open>The states the main loop reaches from a start state.\<close>
inductive reachable :: "m4_state \<Rightarrow> m4_state \<Rightarrow> bool" for s0 :: m4_state where
  start: "reachable s0 s0"
| step: "reachable s0 s \<Longrightarrow> m4_step s = Cont s' \<Longrightarrow> reachable s0 s'"

subsection \<open>Frame-free part of the invariant\<close>

lemma state_ok_fields [simp]:
  "state_ok (st\<lparr>ins := i\<rparr>) = state_ok st"
  "state_ok (st\<lparr>err := e\<rparr>) = state_ok st"
  "state_ok (st\<lparr>out := w\<rparr>) = state_ok st"
  "state_ok (st\<lparr>stack := k\<rparr>) = state_ok st"
  "state_ok (st\<lparr>quote_on := q\<rparr>) = state_ok st"
  "state_ok (st\<lparr>quote_depth := d\<rparr>) = state_ok st"
  "state_ok (st\<lparr>left_quote := l, right_quote := r\<rparr>) = state_ok st"
  by (simp_all add: state_ok_def)

lemma state_ok_unget [simp]: "state_ok (unget s st) = state_ok st"
  by (simp add: unget_def)

lemma stack_unget [simp]: "stack (unget s st) = stack st"
  by (simp add: unget_def)

lemma state_ok_put_str: "state_ok st \<Longrightarrow> state_ok (put_str s st)"
  by (simp add: state_ok_def put_str_eq split: list.splits)

lemma state_ok_out_div: "state_ok st \<Longrightarrow> state_ok (out_div n st)"
  by (simp add: state_ok_def out_div_def)

lemma stack_out_div [simp]: "stack (out_div n st) = stack st"
  by (simp add: out_div_def)

lemma state_ok_fold_out_div: "state_ok st \<Longrightarrow> state_ok (fold out_div ns st)"
  by (induction ns arbitrary: st) (simp_all add: state_ok_out_div)

lemma stack_fold_out_div [simp]: "stack (fold out_div ns st) = stack st"
  by (induction ns arbitrary: st) simp_all

lemma state_ok_undivert_all: "state_ok st \<Longrightarrow> state_ok (undivert_all st)"
  by (simp add: undivert_all_def state_ok_fold_out_div)

lemma state_ok_dump_div: "state_ok st \<Longrightarrow> state_ok (dump_div n st)"
  by (simp add: state_ok_def dump_div_def)

lemma undivert_args_ok:
  "state_ok st \<Longrightarrow> state_ok (undivert_args a st) \<and> stack (undivert_args a st) = stack st"
proof -
  have "state_ok st \<Longrightarrow> state_ok (fold (\<lambda>k st. case undivert_target (arg a k) of
                    None \<Rightarrow> st
                  | Some d \<Rightarrow>
                      if act_div st = 0 then out_div d st
                      else if d \<noteq> act_div st then dump_div d st else st) ks st)
         \<and> stack (fold (\<lambda>k st. case undivert_target (arg a k) of
                    None \<Rightarrow> st
                  | Some d \<Rightarrow>
                      if act_div st = 0 then out_div d st
                      else if d \<noteq> act_div st then dump_div d st else st) ks st) = stack st" for ks
    by (induction ks arbitrary: st)
      (auto simp add: state_ok_out_div state_ok_dump_div split: option.splits,
       simp_all add: dump_div_def)
  then show "state_ok st \<Longrightarrow> ?thesis" by (simp add: undivert_args_def)
qed

lemma divert_num_le: "divert_num a = Some d \<Longrightarrow> d \<le> 10"
  by (auto simp add: divert_num_def digit_val_def is_digit_def split: if_splits)

lemma read_fail_not_Cont [simp]: "read_fail r st \<noteq> Cont st'"
  by (simp add: read_fail_def)

lemma do_dnl_ok: "do_dnl st = Cont st' \<Longrightarrow> \<exists>i. st' = st\<lparr>ins := i\<rparr>"
  by (auto simp add: do_dnl_def split: rd.splits)

lemma do_eat_ws_ok: "do_eat_ws st = Cont st' \<Longrightarrow> \<exists>i. st' = st\<lparr>ins := i\<rparr>"
  by (auto simp add: do_eat_ws_def split: rd.splits)

lemma push_ok:
  "push_result r st = Cont st' \<Longrightarrow> \<exists>s. st' = unget s st"
  "push_num w st = Cont st' \<Longrightarrow> \<exists>s. st' = unget s st"
  by (auto simp add: push_result_def push_num_def split: sum.splits)

lemma bi_with_args_shape:
  assumes "bi_with_args sn a st = Cont st'"
  shows "(\<exists>x y. st' = st\<lparr>ht := upsert_entry (ht st) x y\<rparr>)
    \<or> (\<exists>x h. delete_entry (ht st) x = Some h \<and> st' = st\<lparr>ht := h\<rparr>)
    \<or> (\<exists>l r. st' = st\<lparr>left_quote := l, right_quote := r\<rparr>)
    \<or> (\<exists>d. d \<le> 10 \<and> st' = st\<lparr>act_div := d\<rparr>)
    \<or> (\<exists>e. st' = st\<lparr>err := e\<rparr>)
    \<or> (\<exists>s. st' = unget s st)
    \<or> st' = undivert_args a st
    \<or> (\<exists>i. st' = st\<lparr>ins := i\<rparr>)
    \<or> st' = st"
  using assms unfolding bi_with_args_def
  by (simp split: if_splits option.splits)
    (blast dest: divert_num_le do_dnl_ok push_ok)+

lemma bi_with_args_ok:
  assumes ok: "state_ok st" and b: "bi_with_args sn a st = Cont st'"
  shows "state_ok st' \<and> stack st' = stack st"
  using bi_with_args_shape [OF b] ok undivert_args_ok [OF ok, of a]
  by (auto simp add: state_ok_def ht_ok_upsert unget_def dest: ht_ok_delete)

subsection \<open>Frames\<close>

lemma m4_inv_fields [simp]:
  "m4_inv (st\<lparr>ins := i\<rparr>) = m4_inv st"
  "m4_inv (st\<lparr>err := e\<rparr>) = m4_inv st"
  "m4_inv (st\<lparr>quote_on := q\<rparr>) = m4_inv st"
  "m4_inv (st\<lparr>quote_depth := d\<rparr>) = m4_inv st"
  "m4_inv (unget s st) = m4_inv st"
  by (simp_all add: m4_inv_def unget_def)

lemma frames_put_str:
  "list_all frame_ok (stack st) \<Longrightarrow> list_all frame_ok (stack (put_str s st))"
  by (auto simp add: put_str_eq frame_ok_def split: list.splits)

lemma m4_inv_put_str: "m4_inv st \<Longrightarrow> m4_inv (put_str s st)"
  by (simp add: m4_inv_def state_ok_put_str frames_put_str)

lemma m4_inv_undivert_all: "m4_inv st \<Longrightarrow> m4_inv (undivert_all st)"
  by (simp add: m4_inv_def state_ok_fold_out_div undivert_all_def)

lemma m4_inv_divert0: "m4_inv st \<Longrightarrow> m4_inv (st\<lparr>act_div := 0\<rparr>)"
  by (simp add: m4_inv_def state_ok_def)

lemma m4_inv_quotes:
  "m4_inv st \<Longrightarrow> m4_inv (left_quote_tok t st)"
  "m4_inv st \<Longrightarrow> m4_inv (right_quote_tok t st)"
  by (simp_all add: left_quote_tok_def right_quote_tok_def Let_def m4_inv_put_str)

lemma bi_no_args_shape:
  assumes "bi_no_args t st = Cont st'"
  shows "st' = put_str t st \<or> st' = undivert_all st \<or> st' = st\<lparr>act_div := 0\<rparr>
    \<or> (\<exists>e. st' = st\<lparr>err := e\<rparr>) \<or> (\<exists>s. st' = unget s st) \<or> (\<exists>i. st' = st\<lparr>ins := i\<rparr>)"
  using assms unfolding bi_no_args_def
  by (simp split: if_splits) (blast dest: do_dnl_ok)+

lemma bi_no_args_inv: "m4_inv st \<Longrightarrow> bi_no_args t st = Cont st' \<Longrightarrow> m4_inv st'"
  by (drule bi_no_args_shape)
    (auto simp add: m4_inv_put_str m4_inv_undivert_all m4_inv_divert0)

lemma m4_inv_map_top:
  "m4_inv st \<Longrightarrow> stack st = m # ms \<Longrightarrow> frame_ok (f m) \<Longrightarrow> m4_inv (map_top f st)"
  by (simp add: m4_inv_def map_top_def)

lemma macro_token_inv: "m4_inv st \<Longrightarrow> macro_token t e st = Cont st' \<Longrightarrow> m4_inv st'"
proof -
  assume inv: "m4_inv st" and mt: "macro_token t e st = Cont st'"
  show ?thesis
  proof (cases "getword (ins st)")
    case RdEof
    with mt show ?thesis by (simp add: macro_token_def)
  next
    case RdErr
    with mt show ?thesis by (simp add: macro_token_def)
  next
    case (Rd p)
    obtain nt i where p: "p = (nt, i)" by fastforce
    show ?thesis
    proof (cases "nt = ''(''")
      case True
      let ?st1 = "st\<lparr>ins := i,
         stack := \<lparr>mname = t, mdef = edef e, bracket_depth = 1, act_arg = 1, arg_bufs = [[]]\<rparr> # stack st\<rparr>"
      from mt Rd p True have "do_eat_ws ?st1 = Cont st'"
        by (simp add: macro_token_def start_call_eq)
      then obtain i' where "st' = ?st1\<lparr>ins := i'\<rparr>" by (blast dest: do_eat_ws_ok)
      moreover have "m4_inv ?st1"
        using inv by (simp add: m4_inv_def state_ok_def frame_ok_def)
      ultimately show ?thesis by (simp add: m4_inv_def)
    next
      case False
      let ?st2 = "unget nt (st\<lparr>ins := i\<rparr>)"
      have inv2: "m4_inv ?st2" using inv by simp
      from mt Rd p False have
        "(case edef e of None \<Rightarrow> bi_no_args t ?st2 | Some d \<Rightarrow> Cont (unget (strip_def d) ?st2)) = Cont st'"
        by (simp add: macro_token_def Let_def)
      with bi_no_args_inv [OF inv2] inv show ?thesis by (auto split: option.splits)
    qed
  qed
qed

lemma end_call_inv:
  assumes inv: "m4_inv st" and stk: "stack st = m # ms" and ec: "end_call m ms st = Cont st'"
  shows "m4_inv st'"
proof -
  let ?st1 = "map_top (\<lambda>m. m\<lparr>bracket_depth := bracket_depth m - 1\<rparr>) st"
  have ok1: "state_ok ?st1" and stk1: "tl (stack ?st1) = ms"
    using inv stk by (simp_all add: m4_inv_def map_top_def)
  have ms_ok: "list_all frame_ok ms" using inv stk by (simp add: m4_inv_def)
  show ?thesis
  proof (cases "mdef m")
    case None
    with ec obtain st2 where b: "bi_with_args (mname m) (arg_bufs m) ?st1 = Cont st2"
      and st': "st' = pop_call st2"
      by (auto simp add: end_call_def split: step_res.splits)
    from bi_with_args_ok [OF ok1 b] stk1 ms_ok st' show ?thesis
      by (simp add: m4_inv_def pop_call_def)
  next
    case (Some d)
    with ec have "st' = pop_call (unget (sub_args d (arg_bufs m)) ?st1)"
      by (simp add: end_call_def)
    with ok1 stk1 ms_ok show ?thesis
      by (simp add: m4_inv_def pop_call_def)
  qed
qed

lemma arg_comma_inv:
  assumes inv: "m4_inv st" and stk: "stack st = m # ms" and ac: "arg_comma m ms st = Cont st'"
  shows "m4_inv st'"
proof -
  have n9: "act_arg m \<noteq> 9"
  proof
    assume "act_arg m = 9"
    with ac show False by (simp add: arg_comma_def)
  qed
  let ?st1 = "map_top (\<lambda>m. m\<lparr>act_arg := act_arg m + 1, arg_bufs := arg_bufs m @ [[]]\<rparr>) st"
  from ac n9 have "do_eat_ws ?st1 = Cont st'" by (simp add: arg_comma_def)
  then obtain i where st': "st' = ?st1\<lparr>ins := i\<rparr>" by (blast dest: do_eat_ws_ok)
  have "frame_ok m" using inv stk by (simp add: m4_inv_def)
  with n9 have "frame_ok (m\<lparr>act_arg := act_arg m + 1, arg_bufs := arg_bufs m @ [[]]\<rparr>)"
    by (simp add: frame_ok_def)
  with inv stk have "m4_inv ?st1" by (rule m4_inv_map_top)
  with st' show ?thesis by simp
qed

lemma put_str_top:
  "stack st = m # ms \<Longrightarrow> \<exists>m'. stack (put_str s st) = m' # ms
     \<and> bracket_depth m' = bracket_depth m \<and> frame_ok m' = frame_ok m"
  by (simp add: put_str_eq frame_ok_def)

lemma m4_inv_depth:
  assumes inv: "m4_inv st" and stk: "stack st = m # ms" and d: "1 \<le> bracket_depth m + k - j"
  shows "m4_inv (map_top (\<lambda>m. m\<lparr>bracket_depth := bracket_depth m + k - j\<rparr>) (put_str s st))"
proof -
  obtain m' where s: "stack (put_str s st) = m' # ms" and "bracket_depth m' = bracket_depth m"
    and "frame_ok m' = frame_ok m" using put_str_top [OF stk] by blast
  moreover have "m4_inv (put_str s st)" using inv by (rule m4_inv_put_str)
  moreover have "frame_ok m" using inv stk by (simp add: m4_inv_def)
  ultimately show ?thesis using d by (intro m4_inv_map_top) (auto simp add: frame_ok_def)
qed

lemma plain_token_inv: "m4_inv st \<Longrightarrow> plain_token t st = Cont st' \<Longrightarrow> m4_inv st'"
proof (cases "stack st")
  case Nil
  then show "m4_inv st \<Longrightarrow> plain_token t st = Cont st' \<Longrightarrow> m4_inv st'"
    using m4_inv_put_str [of st t] by (auto simp add: plain_token_def)
next
  case (Cons m ms)
  assume inv: "m4_inv st" and pt: "plain_token t st = Cont st'"
  have up: "m4_inv (map_top (\<lambda>m. m\<lparr>bracket_depth := bracket_depth m + 1\<rparr>) (put_str t st))"
    using m4_inv_depth [OF inv Cons, of 1 0 t] by simp
  have down: "bracket_depth m > 1 \<Longrightarrow>
      m4_inv (map_top (\<lambda>m. m\<lparr>bracket_depth := bracket_depth m - 1\<rparr>) (put_str t st))"
    using m4_inv_depth [OF inv Cons, of 0 1 t] by simp
  show ?thesis
    using pt Cons up down end_call_inv [OF inv Cons] arg_comma_inv [OF inv Cons]
      m4_inv_put_str [OF inv]
    by (auto simp add: plain_token_def split: if_splits)
qed

theorem m4_step_inv: "m4_inv st \<Longrightarrow> m4_step st = Cont st' \<Longrightarrow> m4_inv st'"
proof -
  assume inv: "m4_inv st" and s: "m4_step st = Cont st'"
  let ?st0 = "out_div 0 st"
  have inv0: "m4_inv ?st0" using inv by (simp add: m4_inv_def state_ok_out_div)
  obtain t i where g: "getword (ins ?st0) = Rd (t, i)"
    using s by (auto simp add: m4_step_def Let_def split: rd.splits)
  let ?st1 = "?st0\<lparr>ins := i\<rparr>"
  have inv1: "m4_inv ?st1" using inv0 by simp
  have "(if t = [left_quote ?st1] then Cont (left_quote_tok t ?st1)
          else if t = [right_quote ?st1] then Cont (right_quote_tok t ?st1)
          else if quote_on ?st1 then Cont (put_str t ?st1)
          else (case is_macro (ht ?st1) t of
                  Some e \<Rightarrow> macro_token t e ?st1
                | None \<Rightarrow> plain_token t ?st1)) = Cont st'"
    using s g by (simp add: m4_step_def Let_def)
  with inv1 macro_token_inv [OF inv1] plain_token_inv [OF inv1] show ?thesis
    by (auto simp add: m4_inv_quotes m4_inv_put_str split: if_splits option.splits)
qed

lemma m4_inv_init: "init_state fs argv sin = Some s0 \<Longrightarrow> m4_inv s0"
  by (auto simp add: init_state_def m4_inv_def state_ok_def ht_ok_init split: if_splits)

subsection \<open>The invariant of the main loop\<close>

text \<open>C1: in every state that the main loop reaches from the start-up state of
  \<^verbatim>\<open>main\<close>, the invariant holds: at most nine arguments per call, one buffer per
  argument, open brackets counted from one, a valid active diversion among eleven, and a
  hash table whose buckets hold each name once, in the bucket of its hash.\<close>
theorem m4_reachable_inv:
  assumes init: "init_state fs argv sin = Some s0" and r: "reachable s0 s"
  shows "m4_inv s"
  using r
proof (induction rule: reachable.induct)
  case start
  from init show ?case by (rule m4_inv_init)
next
  case (step s s')
  then show ?case by (blast intro: m4_step_inv)
qed

theorem m4_reachable_inv_witness:
  "init_state Map.empty [] ''a'' = Some
     \<lparr>ins = \<lparr>inp = [], read_stdin = True, stdin = ''a''\<rparr>, files = Map.empty, ht = init_ht,
      stack = [], quote_on = False, quote_depth = 0, act_div = 0, diversion = replicate 11 [],
      left_quote = CHR ''`'', right_quote = CHR 0x27, out = [], err = []\<rparr>
   \<and> m4_inv \<lparr>ins = \<lparr>inp = [], read_stdin = True, stdin = ''a''\<rparr>, files = Map.empty, ht = init_ht,
      stack = [], quote_on = False, quote_depth = 0, act_div = 0, diversion = replicate 11 [],
      left_quote = CHR ''`'', right_quote = CHR 0x27, out = [], err = []\<rparr>"
  using m4_reachable_inv [OF _ reachable.start, of Map.empty "[]" "''a''"]
  by (simp add: init_state_def)

subsection \<open>Releasing the call stack\<close>

lemma free_mcall_frees_from:
  "1 \<le> j \<Longrightarrow> j \<le> Suc act \<Longrightarrow> act \<le> 9 \<Longrightarrow> free_mcall_frees act j = [j..<Suc act]"
proof (induction act j rule: free_mcall_frees.induct)
  case (1 act j)
  show ?case
  proof (cases "j \<le> act")
    case True
    with "1.prems" have "free_mcall_frees act j = j # free_mcall_frees act (Suc j)"
      by (simp add: free_mcall_frees.simps [of act j])
    with "1.IH" "1.prems" True show ?thesis by (simp add: upt_rec [of j])
  next
    case False
    with "1.prems" show ?thesis by (simp add: free_mcall_frees.simps [of act j])
  qed
qed

text \<open>C26: \<^verbatim>\<open>free_stack\<close> releases, for every frame of a well-formed stack (which by
  the invariant of the main loop is every stack the loop reaches), exactly the argument
  buffers the frame allocated, each once and in order: no buffer leaks and none is freed
  twice. The loop stops at the first unallocated slot, or at slot 9 after its test of
  slot 10.\<close>
theorem free_stack_releases_all:
  "list_all frame_ok stk \<Longrightarrow> free_stack stk = map (\<lambda>m. [1..<Suc (length (arg_bufs m))]) stk"
  by (induction stk) (simp_all add: free_stack_def frame_ok_def free_mcall_frees_from del: free_mcall_frees.simps)

theorem free_stack_releases_all_witness:
  "list_all frame_ok [\<lparr>mname = ''f'', mdef = None, bracket_depth = 1, act_arg = 2, arg_bufs = [''a'', ''b'']\<rparr>]
   \<and> free_stack [\<lparr>mname = ''f'', mdef = None, bracket_depth = 1, act_arg = 2, arg_bufs = [''a'', ''b'']\<rparr>] = [[1, 2]]"
proof -
  have ok: "list_all frame_ok [\<lparr>mname = ''f'', mdef = None, bracket_depth = 1, act_arg = 2, arg_bufs = [''a'', ''b'']\<rparr>]"
    by (simp add: frame_ok_def)
  show ?thesis using free_stack_releases_all [OF ok] ok by (simp add: upt_rec)
qed

end
