(* ===== verification/Scenarios.thy ===== *)
theory Scenarios
  imports Engine
begin

text \<open>
  End-to-end runs of \<^verbatim>\<open>m4_main\<close> on concrete inputs (no command-line files, the
  input on standard input), each evaluated in the logic by \<open>simp\<close>: the examples of the
  specification and the behaviours of the source that differ from them. A fuel of 200
  loop iterations is more than each run needs; by \<open>run_mono\<close> any larger fuel gives the
  same result. One input, \<^verbatim>\<open>define(a,a)a\<close>, never finishes, whatever the fuel.
\<close>

lemma run_None_cycle: "m4_step s = Cont s \<Longrightarrow> run n s = None"
  by (induction n) simp_all

text \<open>A run that reaches a state the loop maps to itself never ends: the step from
  \<open>s\<close> either returns to \<open>s\<close> or leads to a state from which no run ends.\<close>
lemma run_None_back:
  assumes "case m4_step s of
             Cont s' \<Rightarrow> s' = s \<or> (\<forall>n. run n s' = None)
           | Eof _ \<Rightarrow> False | Fail _ _ \<Rightarrow> False"
  shows "\<forall>n. run n s = None"
proof
  fix n
  show "run n s = None"
  proof (cases "m4_step s")
    case (Cont s')
    show ?thesis
    proof (cases "s' = s")
      case True
      with Cont show ?thesis by (simp add: run_None_cycle)
    next
      case False
      with Cont assms show ?thesis by (cases n) simp_all
    qed
  qed (insert assms, simp_all)
qed

subsection \<open>The examples of the specification\<close>

text \<open>A user macro with two parameters: \<^verbatim>\<open>define(cool, $1 and $2)cool(goat, mice)\<close>
  prints \<^verbatim>\<open>goat and mice\<close> and exits with status 0.\<close>
theorem define_scenario:
  "m4_main 200 Map.empty [] ''define(cool, $1 and $2)cool(goat, mice)\<newline>'' = Some (0, ''goat and mice\<newline>'', [])"
  by (simp add: m4_eval cong: let_weak_cong)

text \<open>After \<^verbatim>\<open>changequote([, ])\<close> the brackets quote: the macro name
  \<^verbatim>\<open>[x]\<close> is defined and \<^verbatim>\<open>x\<close> expands to \<^verbatim>\<open>hi\<close>.\<close>
theorem changequote_scenario:
  "m4_main 200 Map.empty [] ''changequote([, ])define([x], [hi])x\<newline>'' = Some (0, ''hi\<newline>'', [])"
  by (simp add: m4_eval cong: let_weak_cong)

text \<open>Text diverted to diversion 2 is held back and comes out where
  \<^verbatim>\<open>undivert(2)\<close> is called, after the main stream; the newline that follows the
  bare \<^verbatim>\<open>divert\<close> is ordinary text of diversion 0 and is printed first.\<close>
theorem divert_scenario:
  "m4_main 200 Map.empty [] ''divert(2)hello\<newline>divert\<newline>world\<newline>undivert(2)''
     = Some (0, ''\<newline>world\<newline>hello\<newline>'', [])"
  by (simp add: m4_eval cong: let_weak_cong)

text \<open>\<^verbatim>\<open>incr\<close>, \<^verbatim>\<open>len\<close>, \<^verbatim>\<open>index\<close> and \<^verbatim>\<open>substr\<close> push back their
  results; \<^verbatim>\<open>index(elephant, ha)\<close> is 4, the zero-based offset of \<^verbatim>\<open>ha\<close>.\<close>
theorem string_builtins_scenario:
  "m4_main 200 Map.empty [] ''incr(76) len(goat) index(elephant, ha) substr(elephant, 2, 4)\<newline>''
     = Some (0, ''77 4 4 epha\<newline>'', [])"
  by (simp add: m4_eval cong: let_weak_cong)

text \<open>\<^verbatim>\<open>ifdef\<close> tests the table (before and after a definition) and
  \<^verbatim>\<open>ifelse\<close> compares its first two arguments.\<close>
theorem conditional_scenario:
  "m4_main 200 Map.empty []
     ''ifdef(`cool', yes, no) define(cool, _)ifdef(`cool', yes, no) ifelse(5, 5, T, F) ifelse(5, 6, T, F)\<newline>''
     = Some (0, ''no yes T F\<newline>'', [])"
  by (simp add: m4_eval cong: let_weak_cong)

text \<open>The arithmetic built-ins, empty arguments skipped.\<close>
theorem arith_scenario:
  "m4_main 200 Map.empty [] ''add(8, 2, 4) mult( , 5, , 3) sub(80, 20, 5) div(5, 2) mod(5, 2)\<newline>''
     = Some (0, ''14 15 55 2 1\<newline>'', [])"
  by (simp add: m4_eval cong: let_weak_cong)

text \<open>Quoting strips one level: \<^verbatim>\<open>`X'\<close> gives \<^verbatim>\<open>X\<close> and a doubly quoted
  \<^verbatim>\<open>X\<close> gives \<^verbatim>\<open>`X'\<close>.\<close>
theorem quote_scenario:
  "m4_main 200 Map.empty [] (''`X' ``X'' @ [CHR 0x27, CHR 0x27, CHR 0x0A])
     = Some (0, ''X `X'' @ [CHR 0x27, CHR 0x0A], [])"
  by (simp add: m4_eval cong: let_weak_cong)

text \<open>Input that ends inside a macro call exits with status 1 and the diagnostic
  \<^verbatim>\<open>Input finished without unwinding the stack\<close>.\<close>
theorem unclosed_call_scenario:
  "m4_main 200 Map.empty [] ''define(foo, x)foo(a, b''
     = Some (1, [], ''Input finished without unwinding the stack\<newline>'')"
  by (simp add: m4_eval cong: let_weak_cong)

subsection \<open>Behaviours of the source\<close>

text \<open>An apostrophe in plain text is a right quote at depth 0: it is dropped, the
  depth wraps, the next left quote is printed and opens a quote that never closes, so the
  run fails at the end of input.\<close>
theorem stray_quote_scenario:
  "m4_main 200 Map.empty [] ''don't `x'\<newline>''
     = Some (1, ''dont `x\<newline>'', ''Input finished without exiting quotes\<newline>'')"
  by (simp add: m4_eval cong: let_weak_cong)

text \<open>An identifier that runs into the end of the input is discarded:
  \<^verbatim>\<open>getword\<close> reports end of input instead of returning it.\<close>
theorem trailing_identifier_scenario:
  "m4_main 200 Map.empty [] ''hello world'' = Some (0, ''hello '', [])"
  by (simp add: m4_eval cong: let_weak_cong)

text \<open>Byte 0xFF is not an ordinary byte. Read from standard input after an
  identifier, it cannot be pushed back (\<^verbatim>\<open>ungetch\<close> returns it as \<^verbatim>\<open>EOF\<close>), so
  \<^verbatim>\<open>getword\<close> fails and the program quits with status 1 before printing; at the start
  of a token it ends the input.\<close>
theorem byte_ff_scenario:
  "m4_main 200 Map.empty [] (''ab'' @ [CHR 0xFF] @ ''cd\<newline>'') = Some (1, [], [])
   \<and> m4_main 200 Map.empty [] (''ab '' @ [CHR 0xFF] @ ''cd\<newline>'') = Some (0, ''ab '', [])"
  by (simp add: m4_eval cong: let_weak_cong)

text \<open>A NUL byte is a token of its own that is read as the empty C string, so it
  is dropped from the output.\<close>
theorem nul_byte_scenario:
  "m4_main 200 Map.empty [] (''a '' @ [CHR 0x00] @ ''b\<newline>'') = Some (0, ''a b\<newline>'', [])"
  by (simp add: m4_eval cong: let_weak_cong)

text \<open>C36: a macro whose body is its own name expands for ever: \<^verbatim>\<open>m4_main\<close>
  returns no result for any fuel.\<close>
theorem define_loop_diverges: "m4_main n Map.empty [] ''define(a,a)a\<newline>'' = None"
proof -
  obtain s0 where i: "init_state Map.empty [] ''define(a,a)a\<newline>'' = Some s0"
    by (simp add: init_state_def)
  have "\<forall>n. run n s0 = None"
    using i
    apply (simp add: init_state_def)
    apply hypsubst
    by (rule run_None_back, simp add: m4_eval cong: let_weak_cong)+
  with i show ?thesis by (simp add: m4_main_def)
qed

end
