(* ===== verification/Buf.thy ===== *)
theory Buf
  imports Input
begin

text \<open>
  The growable byte buffer \<^verbatim>\<open>struct buf\<close> of \<^verbatim>\<open>src/m4.c\<close> (array \<^verbatim>\<open>a\<close>
  of allocated size \<^verbatim>\<open>s\<close>, fill index \<^verbatim>\<open>i\<close>) and the functions on it:
  \<^verbatim>\<open>init_buf\<close>, \<^verbatim>\<open>grow_buf\<close>, \<^verbatim>\<open>ungetch\<close>, \<^verbatim>\<open>ungetstr\<close>, the macro
  \<^verbatim>\<open>getch\<close>, \<^verbatim>\<open>put_str\<close>, \<^verbatim>\<open>buf_dump_buf\<close> and \<^verbatim>\<open>delete_buf\<close>. The array
  is a list of length \<open>s\<close>; \<^verbatim>\<open>realloc\<close> extends it (the new bytes are
  unspecified and modelled as NUL). Allocation failure of \<^verbatim>\<open>malloc\<close> and
  \<^verbatim>\<open>realloc\<close> is not modelled; the size tests of \<^verbatim>\<open>grow_buf\<close> are.

  A buffer is used in two ways. The input buffer is a stack read from the top,
  \<open>stack_view\<close>, the list in reading order that theory \<open>Input\<close> works with; output
  buffers (diversions, argument buffers) are read from the start, \<open>text_view\<close>. The
  lemmas show that the array operations implement \<open>Cons\<close>, prepending and appending on
  these views (the refinement that justifies the list model of the other theories), and
  characterise exactly when \<^verbatim>\<open>grow_buf\<close> refuses to grow.
\<close>

record buf =
  buf_a :: "byte list"
  buf_i :: size_t
  buf_s :: size_t

definition INIT_BUF_SIZE :: size_t where
  "INIT_BUF_SIZE = 512"

text \<open>\<^verbatim>\<open>struct buf *init_buf(void)\<close>\<close>
definition init_buf :: buf where
  "init_buf = \<lparr>buf_a = replicate (unat INIT_BUF_SIZE) (CHR 0x00), buf_i = 0, buf_s = INIT_BUF_SIZE\<rparr>"

text \<open>\<^verbatim>\<open>#define BUF_FREE_SIZE(b)\<close>\<close>
definition BUF_FREE_SIZE :: "buf \<Rightarrow> size_t" where
  "BUF_FREE_SIZE b = buf_s b - buf_i b"

text \<open>\<^verbatim>\<open>int grow_buf(struct buf *b, size_t will_use)\<close>: \<open>None\<close> is the return
  value 1. The new size is \<open>2 * s + will_use\<close>, each step checked for overflow.\<close>
definition grow_buf :: "buf \<Rightarrow> size_t \<Rightarrow> buf option" where
  "grow_buf b will_use =
     (if will_use \<le> BUF_FREE_SIZE b then Some b
      else if MOF (buf_s b) 2 then None
      else let new_s = buf_s b * 2 in
        if AOF new_s will_use then None
        else let new_s = new_s + will_use in
          Some (b\<lparr>buf_a := buf_a b @ replicate (unat new_s - unat (buf_s b)) (CHR 0x00),
                  buf_s := new_s\<rparr>))"

text \<open>\<^verbatim>\<open>memcpy(b->a + k, src, length src)\<close> into the array.\<close>
definition buf_write :: "byte list \<Rightarrow> nat \<Rightarrow> byte list \<Rightarrow> byte list" where
  "buf_write xs k ys = take k xs @ ys @ drop (k + length ys) xs"

text \<open>\<^verbatim>\<open>int ungetch(struct buf *b, int ch)\<close>: the result of the assignment
  \<^verbatim>\<open>*(b->a + b->i++) = ch\<close> is the stored byte as a signed \<^verbatim>\<open>char\<close>.\<close>
definition ungetch_buf :: "buf \<Rightarrow> byte \<Rightarrow> int \<times> buf" where
  "ungetch_buf b ch =
     (case (if buf_i b = buf_s b then grow_buf b 1 else Some b) of
        None \<Rightarrow> (EOF, b)
      | Some b' \<Rightarrow> (schar ch, b'\<lparr>buf_a := buf_write (buf_a b') (unat (buf_i b')) [ch],
                                  buf_i := buf_i b' + 1\<rparr>))"

text \<open>The loop of \<^verbatim>\<open>ungetstr\<close> over the string from its last byte to its first.\<close>
fun ungetstr_rev :: "buf \<Rightarrow> byte list \<Rightarrow> buf option" where
  "ungetstr_rev b [] = Some b"
| "ungetstr_rev b (c # cs) =
     (case ungetch_buf b c of (r, b') \<Rightarrow> if r = EOF then None else ungetstr_rev b' cs)"

text \<open>\<^verbatim>\<open>int ungetstr(struct buf *b, char *s)\<close>: \<open>None\<close> is the return value 1.\<close>
definition ungetstr_buf :: "buf \<Rightarrow> byte list \<Rightarrow> buf option" where
  "ungetstr_buf b str = ungetstr_rev b (rev str)"

text \<open>\<^verbatim>\<open>#define getch(b, read_stdin)\<close> on the buffer, with standard input behind it.\<close>
definition getch_buf :: "buf \<Rightarrow> bool \<Rightarrow> byte list \<Rightarrow> int \<times> buf \<times> byte list" where
  "getch_buf b rs sin =
     (if buf_i b \<noteq> 0 then (schar (buf_a b ! unat (buf_i b - 1)), b\<lparr>buf_i := buf_i b - 1\<rparr>, sin)
      else if rs then (case sin of c # cs \<Rightarrow> (uchar c, b, cs) | [] \<Rightarrow> (EOF, b, []))
      else (EOF, b, sin))"

text \<open>\<^verbatim>\<open>int put_str(struct buf *b, char *s)\<close>\<close>
definition put_str_buf :: "buf \<Rightarrow> byte list \<Rightarrow> buf option" where
  "put_str_buf b str =
     (let len = word_of_nat (length str) in
      case (if len > BUF_FREE_SIZE b then grow_buf b len else Some b) of
        None \<Rightarrow> None
      | Some b' \<Rightarrow> Some (b'\<lparr>buf_a := buf_write (buf_a b') (unat (buf_i b')) str,
                           buf_i := buf_i b' + len\<rparr>))"

text \<open>\<^verbatim>\<open>int buf_dump_buf(struct buf *dst, struct buf *src)\<close>\<close>
definition buf_dump_buf :: "buf \<Rightarrow> buf \<Rightarrow> (buf \<times> buf) option" where
  "buf_dump_buf dst src =
     (case (if buf_i src > BUF_FREE_SIZE dst then grow_buf dst (buf_i src) else Some dst) of
        None \<Rightarrow> None
      | Some d \<Rightarrow>
          Some (d\<lparr>buf_a := buf_write (buf_a d) (unat (buf_i d)) (take (unat (buf_i src)) (buf_a src)),
                  buf_i := buf_i d + buf_i src\<rparr>,
                src\<lparr>buf_i := 0\<rparr>))"

text \<open>\<^verbatim>\<open>void delete_buf(struct buf *b)\<close>\<close>
definition delete_buf :: "buf \<Rightarrow> buf" where
  "delete_buf b = b\<lparr>buf_i := 0\<rparr>"

subsection \<open>Views and invariant\<close>

definition buf_ok :: "buf \<Rightarrow> bool" where
  "buf_ok b \<longleftrightarrow> length (buf_a b) = unat (buf_s b) \<and> buf_i b \<le> buf_s b"

text \<open>The input buffer in reading order: the top of the stack first.\<close>
definition stack_view :: "buf \<Rightarrow> byte list" where
  "stack_view b = rev (take (unat (buf_i b)) (buf_a b))"

text \<open>An output buffer: its first \<open>i\<close> bytes.\<close>
definition text_view :: "buf \<Rightarrow> byte list" where
  "text_view b = take (unat (buf_i b)) (buf_a b)"

subsection \<open>The array operations\<close>

lemma length_buf_write:
  "k + length ys \<le> length xs \<Longrightarrow> length (buf_write xs k ys) = length xs"
  by (simp add: buf_write_def)

lemma take_buf_write:
  "k \<le> length xs \<Longrightarrow> take (k + length ys) (buf_write xs k ys) = take k xs @ ys"
  by (simp add: buf_write_def min_def)

lemma take_append_le: "k \<le> length xs \<Longrightarrow> take k (xs @ ys) = take k xs"
  by simp

text \<open>C17: \<^verbatim>\<open>grow_buf\<close> fails exactly when the request does not fit in the free
  space and the new size \<open>2 * s + will_use\<close> does not fit in a \<^verbatim>\<open>size_t\<close>.\<close>
theorem grow_buf_None_iff:
  "grow_buf b w = None \<longleftrightarrow> BUF_FREE_SIZE b < w \<and> 2 ^ 64 \<le> 2 * unat (buf_s b) + unat w"
proof (cases "MOF (buf_s b) 2")
  case True
  then have "2 ^ 64 \<le> 2 * unat (buf_s b)" by (simp add: MOF_iff)
  with True show ?thesis by (auto simp add: grow_buf_def not_le)
next
  case False
  then have "unat (buf_s b * 2) = 2 * unat (buf_s b)" by (simp add: unat_mult_no_MOF)
  with False show ?thesis by (auto simp add: grow_buf_def AOF_iff Let_def not_le)
qed

lemma grow_buf_fits:
  assumes "2 * unat (buf_s b) + unat w < 2 ^ 64"
  shows "\<exists>b'. grow_buf b w = Some b'"
proof -
  have nm: "\<not> MOF (buf_s b) 2" using assms by (simp add: MOF_iff)
  then have "unat (buf_s b * 2) = 2 * unat (buf_s b)" by (simp add: unat_mult_no_MOF)
  with assms have "\<not> AOF (buf_s b * 2) w" by (simp add: AOF_iff)
  with nm show ?thesis by (simp add: grow_buf_def Let_def)
qed

lemma grow_buf_Some:
  assumes ok: "buf_ok b" and g: "grow_buf b w = Some b'"
  shows "buf_ok b' \<and> buf_i b' = buf_i b \<and> take (unat (buf_i b)) (buf_a b') = take (unat (buf_i b)) (buf_a b)
    \<and> unat (buf_i b) + unat w \<le> unat (buf_s b')"
proof (cases "w \<le> BUF_FREE_SIZE b")
  case True
  with g have b': "b' = b" by (simp add: grow_buf_def)
  from ok have "buf_i b \<le> buf_s b" by (simp add: buf_ok_def)
  with True have "unat w \<le> unat (buf_s b) - unat (buf_i b)"
    by (simp add: BUF_FREE_SIZE_def word_le_nat_alt unat_sub)
  moreover have "unat (buf_i b) \<le> unat (buf_s b)" using \<open>buf_i b \<le> buf_s b\<close> by (simp add: word_le_nat_alt)
  ultimately show ?thesis using ok b' by simp
next
  case False
  with g have nm: "\<not> MOF (buf_s b) 2" and na: "\<not> AOF (buf_s b * 2) w"
    by (auto simp add: grow_buf_def Let_def split: if_splits)
  have u2: "unat (buf_s b * 2) = unat (buf_s b) * 2" using unat_mult_no_MOF [OF nm] by simp
  have un: "unat (buf_s b * 2 + w) = unat (buf_s b) * 2 + unat w" using unat_add_no_AOF [OF na] u2 by simp
  from False g nm na have b': "b' = b\<lparr>buf_a := buf_a b @ replicate (unat (buf_s b * 2 + w) - unat (buf_s b)) (CHR 0x00),
                  buf_s := buf_s b * 2 + w\<rparr>"
    by (simp add: grow_buf_def Let_def)
  from ok have len: "length (buf_a b) = unat (buf_s b)" and le: "unat (buf_i b) \<le> unat (buf_s b)"
    by (simp_all add: buf_ok_def word_le_nat_alt)
  have "buf_i b \<le> buf_s b * 2 + w" using le un by (simp add: word_le_nat_alt)
  with b' len un le show ?thesis by (simp add: buf_ok_def)
qed

lemma ungetch_buf_ok:
  assumes ok: "buf_ok b" and small: "unat (buf_i b) < 2 ^ 63"
  shows "\<exists>b'. ungetch_buf b c = (schar c, b') \<and> buf_ok b' \<and> stack_view b' = c # stack_view b
    \<and> unat (buf_i b') = Suc (unat (buf_i b))"
proof -
  obtain b1 where g: "(if buf_i b = buf_s b then grow_buf b 1 else Some b) = Some b1"
    and p: "buf_ok b1 \<and> buf_i b1 = buf_i b \<and> take (unat (buf_i b)) (buf_a b1) = take (unat (buf_i b)) (buf_a b)
      \<and> unat (buf_i b) < unat (buf_s b1)"
  proof (cases "buf_i b = buf_s b")
    case True
    then have "BUF_FREE_SIZE b < 1" by (simp add: BUF_FREE_SIZE_def)
    have "2 * unat (buf_s b) + unat (1 :: size_t) < 2 ^ 64" using True small by simp
    then obtain b1 where "grow_buf b 1 = Some b1" by (blast dest: grow_buf_fits)
    with grow_buf_Some [OF ok this] True that show ?thesis by fastforce
  next
    case False
    with ok have "unat (buf_i b) < unat (buf_s b)"
      by (simp add: buf_ok_def word_less_nat_alt order.order_iff_strict word_le_nat_alt)
    with ok False that show ?thesis by simp
  qed
  let ?b' = "b1\<lparr>buf_a := buf_write (buf_a b1) (unat (buf_i b1)) [c], buf_i := buf_i b1 + 1\<rparr>"
  have len: "length (buf_a b1) = unat (buf_s b1)" using p by (simp add: buf_ok_def)
  have "\<not> AOF (buf_i b1) 1" using p unat_size_t_less [of "buf_s b1"] by (simp add: AOF_iff)
  then have inc: "unat (buf_i b1 + 1) = Suc (unat (buf_i b1))" by (simp add: unat_add_no_AOF)
  have "buf_ok ?b'" using p len inc by (simp add: buf_ok_def length_buf_write word_le_nat_alt)
  moreover have "stack_view ?b' = c # stack_view b"
    using take_buf_write [of "unat (buf_i b)" "buf_a b1" "[c]"] p len inc by (simp add: stack_view_def)
  ultimately show ?thesis using g p inc by (simp add: ungetch_buf_def)
qed

lemma ungetstr_rev_ok:
  "buf_ok b \<Longrightarrow> unat (buf_i b) + length cs \<le> 2 ^ 63 \<Longrightarrow> CHR 0xFF \<notin> set cs \<Longrightarrow>
   \<exists>b'. ungetstr_rev b cs = Some b' \<and> buf_ok b' \<and> stack_view b' = rev cs @ stack_view b"
proof (induction cs arbitrary: b)
  case Nil
  then show ?case by simp
next
  case (Cons c cs)
  then have "unat (buf_i b) < 2 ^ 63" by simp
  from ungetch_buf_ok [OF Cons.prems(1) this, of c] obtain b1 where
    u: "ungetch_buf b c = (schar c, b1)" and ok1: "buf_ok b1"
    and v1: "stack_view b1 = c # stack_view b" and i1: "unat (buf_i b1) = Suc (unat (buf_i b))"
    by blast
  have ne: "schar c \<noteq> EOF" using Cons.prems(3) by (auto simp add: schar_EOF_iff)
  have "unat (buf_i b1) + length cs \<le> 2 ^ 63" using Cons.prems(2) i1 by simp
  with Cons.IH [OF ok1] Cons.prems(3) obtain b' where
    "ungetstr_rev b1 cs = Some b'" "buf_ok b'" "stack_view b' = rev cs @ stack_view b1"
    by auto
  with u ne v1 show ?case by simp
qed

text \<open>C8: \<^verbatim>\<open>ungetstr\<close> on the array buffer implements prepending to the input in
  reading order, for every string without byte 0xFF that fits (the list model of theory
  \<open>Input\<close>).\<close>
theorem ungetstr_refines:
  assumes "buf_ok b" and "unat (buf_i b) + length str \<le> 2 ^ 63" and "CHR 0xFF \<notin> set str"
  shows "\<exists>b'. ungetstr_buf b str = Some b' \<and> buf_ok b' \<and> stack_view b' = str @ stack_view b"
  using ungetstr_rev_ok [of b "rev str"] assms by (simp add: ungetstr_buf_def)

lemma rev_take_nth:
  "0 < n \<Longrightarrow> n \<le> length xs \<Longrightarrow> rev (take n xs) = xs ! (n - 1) # rev (take (n - 1) xs)"
  using take_Suc_conv_app_nth [of "n - 1" xs] by simp

text \<open>C9: the macro \<^verbatim>\<open>getch\<close> on the array buffer is \<open>Input.getch\<close> on the
  buffer's contents in reading order.\<close>
theorem getch_refines:
  assumes ok: "buf_ok b"
  shows "getch \<lparr>inp = stack_view b, read_stdin = rs, stdin = sin\<rparr> =
    (case getch_buf b rs sin of (x, b', sin') \<Rightarrow> (x, \<lparr>inp = stack_view b', read_stdin = rs, stdin = sin'\<rparr>))"
proof (cases "buf_i b = 0")
  case True
  then show ?thesis
    by (cases sin) (simp_all add: getch_def getch_buf_def stack_view_def)
next
  case False
  then have pos: "0 < unat (buf_i b)" by (simp add: unat_gt_0)
  from ok have le: "unat (buf_i b) \<le> length (buf_a b)" by (simp add: buf_ok_def word_le_nat_alt)
  have dec: "unat (buf_i b - 1) = unat (buf_i b) - 1" using False by (simp add: unat_minus_one)
  show ?thesis
    using False rev_take_nth [OF pos le] dec
    by (simp add: getch_def getch_buf_def stack_view_def)
qed

text \<open>C15: \<^verbatim>\<open>put_str\<close> on an output buffer appends the string, for every string
  that fits.\<close>
theorem put_str_refines:
  assumes ok: "buf_ok b" and small: "unat (buf_i b) + length str < 2 ^ 62"
  shows "\<exists>b'. put_str_buf b str = Some b' \<and> buf_ok b' \<and> text_view b' = text_view b @ str"
proof -
  let ?len = "word_of_nat (length str) :: size_t"
  have ulen: "unat ?len = length str" using small by (simp add: unat_of_nat_size_t)
  from ok have le: "unat (buf_i b) \<le> unat (buf_s b)" by (simp add: buf_ok_def word_le_nat_alt)
  obtain b1 where g: "(if ?len > BUF_FREE_SIZE b then grow_buf b ?len else Some b) = Some b1"
    and p: "buf_ok b1 \<and> buf_i b1 = buf_i b \<and> take (unat (buf_i b)) (buf_a b1) = take (unat (buf_i b)) (buf_a b)
      \<and> unat (buf_i b) + length str \<le> unat (buf_s b1)"
  proof (cases "?len > BUF_FREE_SIZE b")
    case True
    then have "unat (buf_s b) - unat (buf_i b) < length str"
      using ulen ok by (simp add: BUF_FREE_SIZE_def word_less_nat_alt unat_sub buf_ok_def)
    then have "2 * unat (buf_s b) + unat ?len < 2 ^ 64" using small le ulen by simp
    then obtain b1 where "grow_buf b ?len = Some b1" by (blast dest: grow_buf_fits)
    with grow_buf_Some [OF ok this] True ulen that show ?thesis by fastforce
  next
    case False
    then have "length str \<le> unat (buf_s b) - unat (buf_i b)"
      using ulen ok by (simp add: BUF_FREE_SIZE_def not_less word_le_nat_alt unat_sub buf_ok_def)
    with ok False le that show ?thesis by simp
  qed
  let ?b' = "b1\<lparr>buf_a := buf_write (buf_a b1) (unat (buf_i b1)) str, buf_i := buf_i b1 + ?len\<rparr>"
  have len1: "length (buf_a b1) = unat (buf_s b1)" using p by (simp add: buf_ok_def)
  have "\<not> AOF (buf_i b1) ?len" using p small ulen by (simp add: AOF_iff)
  then have inc: "unat (buf_i b1 + ?len) = unat (buf_i b1) + length str"
    using p ulen by (simp add: unat_add_no_AOF)
  have "buf_ok ?b'" using p len1 inc by (simp add: buf_ok_def length_buf_write word_le_nat_alt)
  moreover have "text_view ?b' = text_view b @ str"
    using take_buf_write [of "unat (buf_i b)" "buf_a b1" str] p len1 inc by (simp add: text_view_def)
  ultimately show ?thesis using g by (simp add: put_str_buf_def)
qed

text \<open>C16: \<^verbatim>\<open>buf_dump_buf\<close> is \<^verbatim>\<open>put_str\<close> of the source buffer's contents into
  the destination followed by \<^verbatim>\<open>delete_buf\<close> of the source.\<close>
theorem buf_dump_buf_eq:
  assumes "buf_ok src"
  shows "buf_dump_buf dst src =
    (case put_str_buf dst (text_view src) of None \<Rightarrow> None | Some d \<Rightarrow> Some (d, delete_buf src))"
proof -
  have "length (text_view src) = unat (buf_i src)"
    using assms by (simp add: text_view_def buf_ok_def word_le_nat_alt min_def)
  then have "word_of_nat (length (text_view src)) = buf_i src" by simp
  then show ?thesis
    by (simp add: buf_dump_buf_def put_str_buf_def delete_buf_def text_view_def Let_def
        split: option.splits)
qed

subsection \<open>Instances\<close>

lemma buf_ok_init: "buf_ok init_buf"
  by (simp add: buf_ok_def init_buf_def INIT_BUF_SIZE_def)

theorem ungetstr_refines_witness:
  "buf_ok init_buf \<and> unat (buf_i init_buf) + length ''ab'' \<le> 2 ^ 63 \<and> CHR 0xFF \<notin> set ''ab''
   \<and> (\<exists>b'. ungetstr_buf init_buf ''ab'' = Some b' \<and> stack_view b' = ''ab'')"
proof -
  have h: "unat (buf_i init_buf) + length ''ab'' \<le> 2 ^ 63" "CHR 0xFF \<notin> set ''ab''"
    by (simp_all add: init_buf_def)
  have "stack_view init_buf = []" by (simp add: stack_view_def init_buf_def)
  with ungetstr_refines [OF buf_ok_init h] h buf_ok_init show ?thesis by auto
qed

theorem getch_refines_witness:
  "buf_ok init_buf \<and> getch \<lparr>inp = stack_view init_buf, read_stdin = True, stdin = ''x''\<rparr> =
     (case getch_buf init_buf True ''x'' of (x, b', sin') \<Rightarrow>
        (x, \<lparr>inp = stack_view b', read_stdin = True, stdin = sin'\<rparr>))"
  using getch_refines [OF buf_ok_init] buf_ok_init by simp

theorem put_str_refines_witness:
  "buf_ok init_buf \<and> unat (buf_i init_buf) + length ''hello'' < 2 ^ 62
   \<and> (\<exists>b'. put_str_buf init_buf ''hello'' = Some b' \<and> text_view b' = ''hello'')"
proof -
  have h: "unat (buf_i init_buf) + length ''hello'' < 2 ^ 62" by (simp add: init_buf_def)
  have "text_view init_buf = []" by (simp add: text_view_def init_buf_def)
  with put_str_refines [OF buf_ok_init h] h buf_ok_init show ?thesis by auto
qed

theorem buf_dump_buf_eq_witness:
  "buf_ok init_buf \<and> buf_dump_buf init_buf init_buf =
     (case put_str_buf init_buf (text_view init_buf) of None \<Rightarrow> None
      | Some d \<Rightarrow> Some (d, delete_buf init_buf))"
  using buf_dump_buf_eq [OF buf_ok_init] buf_ok_init by simp

end
