(* ===== verification/Include.thy ===== *)
theory Include
  imports Buf
begin

text \<open>
  File loading of \<^verbatim>\<open>src/m4.c\<close>: \<^verbatim>\<open>filesize\<close> (the \<^verbatim>\<open>stat\<close> test) and
  \<^verbatim>\<open>include\<close>, which reserves \<open>fs\<close> bytes above the fill index of the input
  buffer and writes the file into them from the top down, so that \<^verbatim>\<open>getch\<close>
  returns the file's first byte first. The result of \<^verbatim>\<open>stat\<close> is a value
  (\<open>stat_res\<close>), the bytes the \<^verbatim>\<open>getc\<close> loop reads are a list, and a failure
  of \<^verbatim>\<open>fopen\<close> or a read error is \<open>None\<close>. The loop's array writes are
  modelled index by index (\<open>include_loop\<close>): a write outside the array is the error
  value \<open>IncOverrun\<close> instead of undefined behaviour.

  The lemmas show that, when the file has the size \<^verbatim>\<open>stat\<close> reported,
  \<^verbatim>\<open>include\<close> prepends it to the input in reading order (the list model
  \<open>unget\<close> of theory \<open>Engine\<close>), that any other length is an error, and that
  a file longer than \<^verbatim>\<open>b->i + fs\<close> bytes, one that grew between \<^verbatim>\<open>stat\<close>
  and the read, makes the loop write below the start of the array.
\<close>

text \<open>The outcome of \<^verbatim>\<open>stat\<close>: failure, or whether the file is regular
  (\<^verbatim>\<open>S_ISREG\<close>) and its \<^verbatim>\<open>st_size\<close> (a signed \<^verbatim>\<open>off_t\<close>).\<close>
datatype stat_res = StatFail | Stat bool int

text \<open>\<^verbatim>\<open>int filesize(char *fn, size_t *fs)\<close>: \<open>None\<close> is the return value 1.\<close>
definition filesize :: "stat_res \<Rightarrow> size_t option" where
  "filesize r =
     (case r of
        StatFail \<Rightarrow> None
      | Stat reg sz \<Rightarrow> if \<not> reg then None else if sz < 0 then None else Some (word_of_int sz))"

text \<open>The failures of \<^verbatim>\<open>include\<close>: return value 1, or a write outside the array.\<close>
datatype inc_err = IncFail | IncOverrun

text \<open>The loop \<^verbatim>\<open>while ((x = getc(fp)) != EOF) *(b->a + --back_i) = x;\<close>, with
  \<^verbatim>\<open>back_i\<close> a \<^verbatim>\<open>size_t\<close> that wraps below zero.\<close>
fun include_loop :: "byte list \<Rightarrow> size_t \<Rightarrow> byte list \<Rightarrow> (byte list \<times> size_t) option" where
  "include_loop a bk [] = Some (a, bk)"
| "include_loop a bk (x # xs) =
     (if unat (bk - 1) < length a then include_loop (a[unat (bk - 1) := x]) (bk - 1) xs
      else None)"

text \<open>\<^verbatim>\<open>int include(struct buf *b, char *fn)\<close>, given the \<^verbatim>\<open>stat\<close> result of
  \<^verbatim>\<open>fn\<close> and the bytes read from it.\<close>
definition include_buf :: "buf \<Rightarrow> stat_res \<Rightarrow> byte list option \<Rightarrow> inc_err + buf" where
  "include_buf b r content =
     (case filesize r of
        None \<Rightarrow> Inl IncFail
      | Some fs \<Rightarrow>
          (case (if fs > BUF_FREE_SIZE b then grow_buf b fs else Some b) of
             None \<Rightarrow> Inl IncFail
           | Some b' \<Rightarrow>
               (case content of
                  None \<Rightarrow> Inl IncFail
                | Some xs \<Rightarrow>
                    (case include_loop (buf_a b') (buf_i b' + fs) xs of
                       None \<Rightarrow> Inl IncOverrun
                     | Some (a', back_i) \<Rightarrow>
                         if back_i \<noteq> buf_i b' then Inl IncFail
                         else Inr (b'\<lparr>buf_a := a', buf_i := buf_i b' + fs\<rparr>)))))"

subsection \<open>The write loop\<close>

lemma include_grow_eq: "(if fs > BUF_FREE_SIZE b then grow_buf b fs else Some b) = grow_buf b fs"
  by (auto simp add: grow_buf_def not_less)

lemma include_loop_back:
  "include_loop a bk xs = Some (a', bk') \<Longrightarrow> bk' = bk - word_of_nat (length xs)"
  by (induction a bk xs rule: include_loop.induct) (auto split: if_splits)

lemma include_loop_fits:
  "length xs \<le> unat bk \<Longrightarrow> unat bk \<le> length a \<Longrightarrow>
   include_loop a bk xs = Some (buf_write a (unat bk - length xs) (rev xs), bk - word_of_nat (length xs))"
proof (induction xs arbitrary: a bk)
  case Nil
  then show ?case by (simp add: buf_write_def)
next
  case (Cons x xs)
  let ?k = "unat bk - 1"
  have pos: "bk \<noteq> 0" using Cons.prems(1) by auto
  then have dec: "unat (bk - 1) = ?k" by (simp add: unat_minus_one)
  have lt: "?k < length a" using Cons.prems pos by (simp add: unat_gt_0 [symmetric])
  let ?a1 = "a[?k := x]"
  have "include_loop ?a1 (bk - 1) xs =
      Some (buf_write ?a1 (?k - length xs) (rev xs), bk - 1 - word_of_nat (length xs))"
    using Cons.IH [of "bk - 1" ?a1] Cons.prems dec by simp
  moreover have "buf_write ?a1 (?k - length xs) (rev xs) =
      buf_write a (unat bk - length (x # xs)) (rev (x # xs))"
  proof -
    have "take (?k - length xs) ?a1 = take (?k - length xs) a" by simp
    moreover have "drop ?k ?a1 = ?a1 ! ?k # drop (Suc ?k) ?a1"
      using lt by (intro Cons_nth_drop_Suc [symmetric]) simp
    then have "drop ?k ?a1 = x # drop (Suc ?k) a" using lt by simp
    ultimately show ?thesis using Cons.prems lt by (simp add: buf_write_def)
  qed
  ultimately show ?case using dec lt by (simp add: algebra_simps)
qed

lemma include_loop_overrun:
  "unat bk < length xs \<Longrightarrow> unat bk \<le> length a \<Longrightarrow> length a < 2 ^ 64 \<Longrightarrow>
   include_loop a bk xs = None"
proof (induction xs arbitrary: a bk)
  case Nil
  then show ?case by simp
next
  case (Cons x xs)
  show ?case
  proof (cases "bk = 0")
    case True
    then show ?thesis using Cons.prems(3) by (simp add: unsigned_minus_1_eq_mask mask_eq_exp_minus_1)
  next
    case False
    then have dec: "unat (bk - 1) = unat bk - 1" by (simp add: unat_minus_one)
    have pos: "0 < unat bk" using False by (simp add: unat_gt_0)
    then have "unat bk - 1 < length a" "unat bk - 1 < length xs" using Cons.prems by auto
    with Cons.IH [of "bk - 1" "a[unat bk - 1 := x]"] Cons.prems dec show ?thesis by simp
  qed
qed

lemma include_grown:
  assumes ok: "buf_ok b" and g: "grow_buf b fs = Some b1"
  shows "buf_ok b1" and "buf_i b1 = buf_i b"
    and "take (unat (buf_i b)) (buf_a b1) = take (unat (buf_i b)) (buf_a b)"
    and "unat (buf_i b + fs) = unat (buf_i b) + unat fs"
    and "unat (buf_i b) + unat fs \<le> length (buf_a b1)"
proof -
  have p: "buf_ok b1" "buf_i b1 = buf_i b" "take (unat (buf_i b)) (buf_a b1) = take (unat (buf_i b)) (buf_a b)"
    "unat (buf_i b) + unat fs \<le> unat (buf_s b1)"
    using grow_buf_Some [OF ok g] by simp_all
  then have "\<not> AOF (buf_i b) fs" using unat_size_t_less [of "buf_s b1"] by (simp add: AOF_iff)
  then show "unat (buf_i b + fs) = unat (buf_i b) + unat fs" by (simp add: unat_add_no_AOF)
  show "buf_ok b1" "buf_i b1 = buf_i b" "take (unat (buf_i b)) (buf_a b1) = take (unat (buf_i b)) (buf_a b)"
    "unat (buf_i b) + unat fs \<le> length (buf_a b1)"
    using p by (simp_all add: buf_ok_def)
qed

subsection \<open>Loading a file\<close>

text \<open>C18: when the file has the size \<^verbatim>\<open>stat\<close> reported and the buffer can grow to
  hold it, \<^verbatim>\<open>include\<close> succeeds and prepends the file to the input in reading
  order: the array implementation of the list model \<open>unget\<close> used by the
  built-in \<^verbatim>\<open>include\<close> and by the loading of the command-line files.\<close>
theorem include_refines:
  assumes ok: "buf_ok b" and fs: "filesize r = Some fs" and len: "length xs = unat fs"
    and g: "grow_buf b fs \<noteq> None"
  shows "\<exists>b'. include_buf b r (Some xs) = Inr b' \<and> buf_ok b' \<and> stack_view b' = xs @ stack_view b"
proof -
  obtain b1 where g1: "grow_buf b fs = Some b1" using g by blast
  note p = include_grown [OF ok g1]
  let ?i = "unat (buf_i b)"
  have "include_loop (buf_a b1) (buf_i b1 + fs) xs =
      Some (buf_write (buf_a b1) ?i (rev xs), buf_i b1 + fs - word_of_nat (length xs))"
    using include_loop_fits [of xs "buf_i b1 + fs" "buf_a b1"] p len by simp
  moreover have "buf_i b1 + fs - word_of_nat (length xs) = buf_i b1" using len by simp
  ultimately have r: "include_buf b r (Some xs) =
      Inr (b1\<lparr>buf_a := buf_write (buf_a b1) ?i (rev xs), buf_i := buf_i b1 + fs\<rparr>)"
    using fs g1 by (simp add: include_buf_def include_grow_eq)
  have l: "length (buf_write (buf_a b1) ?i (rev xs)) = unat (buf_s b1)"
    using p len length_buf_write [of ?i "rev xs" "buf_a b1"] by (simp add: buf_ok_def)
  have "buf_i b1 + fs \<le> buf_s b1" using p l len length_buf_write [of ?i "rev xs" "buf_a b1"]
    by (simp add: word_le_nat_alt buf_ok_def)
  then have "buf_ok (b1\<lparr>buf_a := buf_write (buf_a b1) ?i (rev xs), buf_i := buf_i b1 + fs\<rparr>)"
    using l by (simp add: buf_ok_def)
  moreover have "take (?i + length xs) (buf_write (buf_a b1) ?i (rev xs)) = take ?i (buf_a b1) @ rev xs"
    using take_buf_write [of ?i "buf_a b1" "rev xs"] p by simp
  then have "stack_view (b1\<lparr>buf_a := buf_write (buf_a b1) ?i (rev xs), buf_i := buf_i b1 + fs\<rparr>)
      = xs @ stack_view b"
    using p len by (simp add: stack_view_def)
  ultimately show ?thesis using r by blast
qed

text \<open>C24: a file whose length is not the size \<^verbatim>\<open>stat\<close> reported (it changed in
  between) makes \<^verbatim>\<open>include\<close> fail: the final check \<^verbatim>\<open>back_i != b->i\<close>, or a
  write outside the array before it.\<close>
theorem include_size_mismatch:
  assumes fs: "filesize r = Some fs" and len: "length xs \<noteq> unat fs" and small: "length xs < 2 ^ 64"
  shows "\<exists>e. include_buf b r (Some xs) = Inl e"
proof (cases "grow_buf b fs")
  case None
  with fs show ?thesis by (simp add: include_buf_def include_grow_eq)
next
  case (Some b1)
  have "unat (word_of_nat (length xs) :: size_t) = length xs" using small by (simp add: unat_of_nat)
  then have ne: "word_of_nat (length xs) \<noteq> fs" using len by auto
  show ?thesis
  proof (cases "include_loop (buf_a b1) (buf_i b1 + fs) xs")
    case None
    with fs Some show ?thesis by (simp add: include_buf_def include_grow_eq)
  next
    case (Some p)
    obtain a' bk' where pe: "p = (a', bk')" by fastforce
    with Some have "bk' = buf_i b1 + fs - word_of_nat (length xs)" by (simp add: include_loop_back)
    with ne have "bk' \<noteq> buf_i b1" by auto
    with fs \<open>grow_buf b fs = Some b1\<close> Some pe show ?thesis by (simp add: include_buf_def include_grow_eq)
  qed
qed

text \<open>C19: a file more than \<^verbatim>\<open>b->i + fs\<close> bytes long, one that grew after the
  \<^verbatim>\<open>stat\<close>, makes the loop decrement \<^verbatim>\<open>back_i\<close> past zero and write outside the
  array, before the final check can reject it.\<close>
theorem include_overrun:
  assumes ok: "buf_ok b" and fs: "filesize r = Some fs" and g: "grow_buf b fs \<noteq> None"
    and long: "unat (buf_i b) + unat fs < length xs"
  shows "include_buf b r (Some xs) = Inl IncOverrun"
proof -
  obtain b1 where g1: "grow_buf b fs = Some b1" using g by blast
  note p = include_grown [OF ok g1]
  have "length (buf_a b1) < 2 ^ 64" using p unat_size_t_less [of "buf_s b1"] by (simp add: buf_ok_def)
  then have "include_loop (buf_a b1) (buf_i b1 + fs) xs = None"
    using include_loop_overrun [of "buf_i b1 + fs" xs "buf_a b1"] p long by simp
  with fs g1 show ?thesis by (simp add: include_buf_def include_grow_eq)
qed

subsection \<open>Instances\<close>

lemma filesize_eval: "filesize (Stat True 2) = Some 2" "filesize (Stat True 1) = Some 1"
  by (simp_all add: filesize_def)

lemma grow_init_buf: "grow_buf init_buf 2 = Some init_buf" "grow_buf init_buf 1 = Some init_buf"
  by (simp_all add: grow_buf_def BUF_FREE_SIZE_def init_buf_def INIT_BUF_SIZE_def)

theorem include_refines_witness:
  "buf_ok init_buf \<and> filesize (Stat True 2) = Some 2 \<and> length ''ab'' = unat (2 :: size_t)
   \<and> grow_buf init_buf 2 \<noteq> None
   \<and> (\<exists>b'. include_buf init_buf (Stat True 2) (Some ''ab'') = Inr b' \<and> stack_view b' = ''ab'')"
proof -
  have "stack_view init_buf = []" by (simp add: stack_view_def init_buf_def)
  with include_refines [OF buf_ok_init filesize_eval(1), of "''ab''"] grow_init_buf buf_ok_init filesize_eval
  show ?thesis by auto
qed

theorem include_size_mismatch_witness:
  "filesize (Stat True 2) = Some 2 \<and> length ''a'' \<noteq> unat (2 :: size_t) \<and> length ''a'' < 2 ^ 64
   \<and> (\<exists>e. include_buf init_buf (Stat True 2) (Some ''a'') = Inl e)"
  using include_size_mismatch [OF filesize_eval(1), of "''a''" init_buf] filesize_eval by simp

theorem include_overrun_witness:
  "buf_ok init_buf \<and> filesize (Stat True 1) = Some 1 \<and> grow_buf init_buf 1 \<noteq> None
   \<and> unat (buf_i init_buf) + unat (1 :: size_t) < length ''ab''
   \<and> include_buf init_buf (Stat True 1) (Some ''ab'') = Inl IncOverrun"
proof -
  have "unat (buf_i init_buf) + unat (1 :: size_t) < length ''ab''" by (simp add: init_buf_def)
  with include_overrun [OF buf_ok_init filesize_eval(2)] grow_init_buf buf_ok_init filesize_eval
  show ?thesis by simp
qed

end
