(* ===== verification/Esyscmd.thy ===== *)
theory Esyscmd
  imports Buf Engine
begin

text \<open>
  The function \<^verbatim>\<open>esyscmd\<close> of \<^verbatim>\<open>src/m4.c\<close>, compiled only when
  \<^verbatim>\<open>ESYSCMD_MAKETEMP\<close> is set to 1 (it is 0 in the repository). It runs a shell
  command with \<^verbatim>\<open>popen\<close>, collects the bytes of its output in \<^verbatim>\<open>tmp_buf\<close>
  with \<^verbatim>\<open>ungetch\<close>, dropping NUL bytes, terminates them with a NUL and pushes the
  resulting string back onto the input with \<^verbatim>\<open>ungetstr\<close>. The command itself is
  outside the model: its effect is the list of bytes read and whether it exited with
  status 0, or \<open>None\<close> when \<^verbatim>\<open>popen\<close>, a read or \<^verbatim>\<open>pclose\<close> fails.

  The lemmas show that the output of a successful command is read next, without its NUL
  bytes, and that any output containing byte 0xFF makes \<^verbatim>\<open>esyscmd\<close> fail: the
  value of \<^verbatim>\<open>ungetch\<close> is the stored byte as a signed \<^verbatim>\<open>char\<close>, which is
  \<^verbatim>\<open>EOF\<close> for 0xFF and is taken for an allocation failure.
\<close>

text \<open>The loop \<^verbatim>\<open>while ((x = getc(fp)) != EOF) if (x != '\0' && ungetch(tmp_buf, x) == EOF) ...\<close>\<close>
fun esys_collect :: "buf \<Rightarrow> byte list \<Rightarrow> buf option" where
  "esys_collect b [] = Some b"
| "esys_collect b (x # xs) =
     (if x = CHR 0x00 then esys_collect b xs
      else case ungetch_buf b x of (r, b') \<Rightarrow> if r = EOF then None else esys_collect b' xs)"

text \<open>The string at \<^verbatim>\<open>tmp_buf->a\<close>: the bytes up to the first NUL.\<close>
definition c_string :: "byte list \<Rightarrow> byte list" where
  "c_string xs = takeWhile (\<lambda>c. c \<noteq> CHR 0x00) xs"

text \<open>\<^verbatim>\<open>int esyscmd(struct buf *input, struct buf *tmp_buf, char *cmd)\<close>, given
  what the command printed and whether it exited with status 0; \<open>None\<close> is the return
  value 1.\<close>
definition esyscmd_buf :: "buf \<Rightarrow> buf \<Rightarrow> (byte list \<times> bool) option \<Rightarrow> (buf \<times> buf) option" where
  "esyscmd_buf input tmp cmd_out =
     (let tmp = delete_buf tmp in
      case cmd_out of
        None \<Rightarrow> None
      | Some (xs, exit_ok) \<Rightarrow>
          (case esys_collect tmp xs of
             None \<Rightarrow> None
           | Some tmp1 \<Rightarrow>
               if \<not> exit_ok then None
               else (case ungetch_buf tmp1 (CHR 0x00) of
                       (r, tmp2) \<Rightarrow>
                         if r = EOF then None
                         else (case ungetstr_buf input (c_string (buf_a tmp2)) of
                                 None \<Rightarrow> None
                               | Some input' \<Rightarrow> Some (input', tmp2)))))"

text \<open>\<^verbatim>\<open>#define MAKETEMP(s)\<close> (the POSIX branch): \<^verbatim>\<open>mkstemp\<close> replaces the
  trailing \<^verbatim>\<open>XXXXXX\<close> of the template in place and opens the file, then the file is
  closed. The operating system is the parameter \<open>mkstemp\<close>: the new name and whether
  \<^verbatim>\<open>close\<close> succeeded, or \<open>None\<close> when \<^verbatim>\<open>mkstemp\<close> returns -1.\<close>
definition MAKETEMP :: "(byte list \<Rightarrow> (byte list \<times> bool) option) \<Rightarrow> byte list \<Rightarrow> m4_error + byte list" where
  "MAKETEMP mkstemp s =
     (case mkstemp s of
        None \<Rightarrow> Inl MaketempFailed
      | Some (s', closed) \<Rightarrow> if closed then Inr s' else Inl MaketempCloseFailed)"

text \<open>The built-in \<^verbatim>\<open>esyscmd\<close> on the list model of the input used by the engine:
  \<^verbatim>\<open>EQUIT("esyscmd: Failed")\<close> when \<^verbatim>\<open>esyscmd\<close> returns 1, which happens when
  the command cannot be run, does not exit with status 0, or prints byte 0xFF; otherwise
  its output without NUL bytes is read next. Theorem \<open>esyscmd_step_refines\<close> shows
  that this is what \<open>esyscmd_buf\<close> does on the array buffer.\<close>
definition bi_esyscmd :: "(byte list \<times> bool) option \<Rightarrow> m4_state \<Rightarrow> step_res" where
  "bi_esyscmd r st =
     (case r of
        None \<Rightarrow> Fail EsyscmdFailed st
      | Some (xs, exit_ok) \<Rightarrow>
          if \<not> exit_ok \<or> CHR 0xFF \<in> set xs then Fail EsyscmdFailed st
          else Cont (unget (filter (\<lambda>c. c \<noteq> CHR 0x00) xs) st))"

text \<open>\<^verbatim>\<open>PROCESS_BI_WITH_ARGS\<close> followed by \<^verbatim>\<open>PROCESS_BI_WITH_ARGS_EXTRA\<close>, the
  dispatch with \<^verbatim>\<open>ESYSCMD_MAKETEMP\<close> set. The two extra names are not names of the
  other built-ins, so testing them first is the same as testing them last; \<open>popen\<close>
  is the output and exit status of a shell command.\<close>
definition bi_with_args_extra ::
  "(byte list \<Rightarrow> (byte list \<times> bool) option) \<Rightarrow> (byte list \<Rightarrow> (byte list \<times> bool) option)
    \<Rightarrow> byte list \<Rightarrow> byte list list \<Rightarrow> m4_state \<Rightarrow> step_res" where
  "bi_with_args_extra mkstemp popen sn a st =
     (if sn = ''maketemp'' then
        (case MAKETEMP mkstemp (arg a 1) of
           Inl e \<Rightarrow> Fail e st
         | Inr s \<Rightarrow> Cont (unget s st))
      else if sn = ''esyscmd'' then bi_esyscmd (popen (arg a 1)) st
      else bi_with_args sn a st)"

subsection \<open>Collecting the output\<close>

lemma text_view_ungetch:
  "buf_ok b \<Longrightarrow> unat (buf_i b) < 2 ^ 63 \<Longrightarrow>
   \<exists>b'. ungetch_buf b c = (schar c, b') \<and> buf_ok b' \<and> text_view b' = text_view b @ [c]
     \<and> unat (buf_i b') = Suc (unat (buf_i b))"
proof -
  assume ok: "buf_ok b" and small: "unat (buf_i b) < 2 ^ 63"
  obtain b' where u: "ungetch_buf b c = (schar c, b')" and ok': "buf_ok b'"
    and v: "stack_view b' = c # stack_view b" and i: "unat (buf_i b') = Suc (unat (buf_i b))"
    using ungetch_buf_ok [OF ok small] by blast
  have "text_view b' = rev (stack_view b')" "text_view b = rev (stack_view b)"
    by (simp_all add: text_view_def stack_view_def)
  with u ok' v i show ?thesis by auto
qed

lemma esys_collect_ok:
  "buf_ok b \<Longrightarrow> unat (buf_i b) + length xs < 2 ^ 63 \<Longrightarrow> CHR 0xFF \<notin> set xs \<Longrightarrow>
   \<exists>b'. esys_collect b xs = Some b' \<and> buf_ok b'
     \<and> text_view b' = text_view b @ filter (\<lambda>c. c \<noteq> CHR 0x00) xs
     \<and> unat (buf_i b') \<le> unat (buf_i b) + length xs"
proof (induction xs arbitrary: b)
  case Nil
  then show ?case by simp
next
  case (Cons x xs)
  show ?case
  proof (cases "x = CHR 0x00")
    case True
    with Cons.IH [OF Cons.prems(1)] Cons.prems(2,3) show ?thesis by fastforce
  next
    case False
    obtain b1 where u: "ungetch_buf b x = (schar x, b1)" and ok1: "buf_ok b1"
      and v: "text_view b1 = text_view b @ [x]" and i: "unat (buf_i b1) = Suc (unat (buf_i b))"
      using text_view_ungetch [OF Cons.prems(1)] Cons.prems(2) by fastforce
    have ne: "schar x \<noteq> EOF" using Cons.prems(3) by (auto simp add: schar_EOF_iff)
    from Cons.IH [OF ok1] Cons.prems(2,3) i obtain b' where
      "esys_collect b1 xs = Some b'" "buf_ok b'"
      "text_view b' = text_view b1 @ filter (\<lambda>c. c \<noteq> CHR 0x00) xs"
      "unat (buf_i b') \<le> unat (buf_i b1) + length xs"
      by auto
    with u ne v i False show ?thesis by simp
  qed
qed

lemma esys_collect_ff: "CHR 0xFF \<in> set xs \<Longrightarrow> esys_collect b xs = None"
proof (induction xs arbitrary: b)
  case Nil
  then show ?case by simp
next
  case (Cons x xs)
  show ?case
  proof (cases "x = CHR 0xFF")
    case True
    then have "fst (ungetch_buf b x) = EOF"
      by (simp add: ungetch_buf_def schar_EOF_iff split: option.splits)
    with True show ?thesis by (cases "ungetch_buf b x") simp
  next
    case False
    with Cons show ?thesis by (simp split: prod.splits)
  qed
qed

lemma c_string_text_view:
  assumes ok: "buf_ok b" and nz: "CHR 0x00 \<notin> set (text_view b)"
    and small: "unat (buf_i b) < 2 ^ 63"
    and u: "ungetch_buf b (CHR 0x00) = (r, b')" and ne: "r \<noteq> EOF"
  shows "c_string (buf_a b') = text_view b"
proof -
  obtain b2 where u2: "ungetch_buf b (CHR 0x00) = (schar (CHR 0x00), b2)" and ok2: "buf_ok b2"
    and v: "text_view b2 = text_view b @ [CHR 0x00]"
    using text_view_ungetch [OF ok small] by blast
  from u u2 have b': "b' = b2" by simp
  have "buf_a b2 = text_view b2 @ drop (unat (buf_i b2)) (buf_a b2)"
    by (simp add: text_view_def)
  then have "c_string (buf_a b2) = c_string (text_view b @ [CHR 0x00] @ drop (unat (buf_i b2)) (buf_a b2))"
    using v by simp
  moreover have "\<forall>c \<in> set (text_view b). c \<noteq> CHR 0x00" using nz by blast
  ultimately show ?thesis using b' by (simp add: c_string_def takeWhile_append2)
qed

lemma buf_ok_delete: "buf_ok b \<Longrightarrow> buf_ok (delete_buf b) \<and> text_view (delete_buf b) = [] \<and> buf_i (delete_buf b) = 0"
  by (simp add: buf_ok_def delete_buf_def text_view_def)

subsection \<open>Command output is read next\<close>

lemma esyscmd_buf_ok:
  assumes ok: "buf_ok input" and okt: "buf_ok tmp" and ff: "CHR 0xFF \<notin> set xs"
    and small: "length xs < 2 ^ 62" and fit: "unat (buf_i input) + length xs \<le> 2 ^ 63"
  shows "\<exists>input' tmp'. esyscmd_buf input tmp (Some (xs, True)) = Some (input', tmp')
    \<and> buf_ok input' \<and> stack_view input' = filter (\<lambda>c. c \<noteq> CHR 0x00) xs @ stack_view input"
proof -
  let ?ys = "filter (\<lambda>c. c \<noteq> CHR 0x00) xs"
  note d = buf_ok_delete [OF okt]
  obtain t1 where c: "esys_collect (delete_buf tmp) xs = Some t1" and ok1: "buf_ok t1"
    and v1: "text_view t1 = ?ys" and i1: "unat (buf_i t1) \<le> length xs"
    using esys_collect_ok [of "delete_buf tmp" xs] d small ff by auto
  have s1: "unat (buf_i t1) < 2 ^ 63" using i1 small by simp
  obtain t2 where u: "ungetch_buf t1 (CHR 0x00) = (schar (CHR 0x00), t2)"
    using text_view_ungetch [OF ok1 s1] by blast
  have ne: "schar (CHR 0x00) \<noteq> EOF" by (simp add: schar_EOF_iff)
  have nz: "CHR 0x00 \<notin> set (text_view t1)" using v1 by simp
  have cs: "c_string (buf_a t2) = ?ys" using c_string_text_view [OF ok1 nz s1 u ne] v1 by simp
  have "length ?ys \<le> length xs" by (rule length_filter_le)
  then have "unat (buf_i input) + length (rev ?ys) \<le> 2 ^ 63" using fit by (simp only: length_rev)
  moreover have "CHR 0xFF \<notin> set (rev ?ys)" using ff by simp
  ultimately obtain input' where g: "ungetstr_rev input (rev ?ys) = Some input'" and ok': "buf_ok input'"
    and v: "stack_view input' = rev (rev ?ys) @ stack_view input"
    using ungetstr_rev_ok [OF ok] by blast
  have "esyscmd_buf input tmp (Some (xs, True)) = Some (input', t2)"
    using c u ne cs g by (simp add: esyscmd_buf_def ungetstr_buf_def)
  with ok' v show ?thesis by auto
qed

text \<open>C25: the output of a command that exits with status 0, without byte 0xFF and of a
  size that fits, is pushed back onto the input so that it is read next, in order and
  with its NUL bytes removed.\<close>
theorem esyscmd_refines:
  assumes "buf_ok input" and "buf_ok tmp" and "CHR 0xFF \<notin> set xs"
    and "length xs < 2 ^ 62" and "unat (buf_i input) + length xs \<le> 2 ^ 63"
  shows "\<exists>input' tmp'. esyscmd_buf input tmp (Some (xs, True)) = Some (input', tmp')
    \<and> buf_ok input' \<and> stack_view input' = filter (\<lambda>c. c \<noteq> CHR 0x00) xs @ stack_view input"
  using esyscmd_buf_ok [OF assms] .

text \<open>C27: composition of the buffer level with the engine: when the input buffer
  holds the engine's pending input, the built-in \<^verbatim>\<open>esyscmd\<close> of the engine model fails
  exactly when \<open>esyscmd_buf\<close> does, and otherwise leaves as input what the array
  buffer then holds; for every exit status and every output that fits.\<close>
theorem esyscmd_step_refines:
  assumes ok: "buf_ok b" and okt: "buf_ok tmp" and v: "stack_view b = inp (ins st)"
    and small: "length xs < 2 ^ 62" and fit: "unat (buf_i b) + length xs \<le> 2 ^ 63"
  shows "case esyscmd_buf b tmp (Some (xs, exit_ok)) of
           None \<Rightarrow> bi_esyscmd (Some (xs, exit_ok)) st = Fail EsyscmdFailed st
         | Some (b', t') \<Rightarrow> bi_esyscmd (Some (xs, exit_ok)) st = Cont (st\<lparr>ins := (ins st)\<lparr>inp := stack_view b'\<rparr>\<rparr>)"
proof (cases "exit_ok \<and> CHR 0xFF \<notin> set xs")
  case True
  then have ff: "CHR 0xFF \<notin> set xs" and e: "exit_ok" by simp_all
  obtain b' t' where r: "esyscmd_buf b tmp (Some (xs, True)) = Some (b', t')"
    and v': "stack_view b' = filter (\<lambda>c. c \<noteq> CHR 0x00) xs @ stack_view b"
    using esyscmd_buf_ok [OF ok okt ff small fit] by blast
  with e ff v show ?thesis by (simp add: bi_esyscmd_def unget_def ungetstr_def)
next
  case False
  then have "esyscmd_buf b tmp (Some (xs, exit_ok)) = None"
    by (auto simp add: esyscmd_buf_def esys_collect_ff split: option.splits prod.splits)
  with False show ?thesis by (auto simp add: bi_esyscmd_def)
qed

text \<open>C28: a command whose output contains byte 0xFF makes \<^verbatim>\<open>esyscmd\<close> fail, whatever
  the buffers and the exit status: \<^verbatim>\<open>ungetch\<close> returns the stored 0xFF as \<^verbatim>\<open>EOF\<close>,
  which the loop takes for a failure to grow the buffer.\<close>
theorem esyscmd_ff_fails:
  "CHR 0xFF \<in> set xs \<Longrightarrow> esyscmd_buf input tmp (Some (xs, exit_ok)) = None"
  by (simp add: esyscmd_buf_def esys_collect_ff)

subsection \<open>Instances\<close>

theorem esyscmd_refines_witness:
  "\<exists>input' tmp'. esyscmd_buf init_buf init_buf (Some (''a'' @ [CHR 0x00] @ ''b'', True)) = Some (input', tmp')
     \<and> stack_view input' = ''ab''"
proof -
  have h: "CHR 0xFF \<notin> set (''a'' @ [CHR 0x00] @ ''b'')" "length (''a'' @ [CHR 0x00] @ ''b'') < 2 ^ 62"
    "unat (buf_i init_buf) + length (''a'' @ [CHR 0x00] @ ''b'') \<le> 2 ^ 63"
    by (simp_all add: init_buf_def)
  have "stack_view init_buf = []" by (simp add: stack_view_def init_buf_def)
  with esyscmd_refines [OF buf_ok_init buf_ok_init h] show ?thesis by auto
qed

theorem esyscmd_ff_fails_witness:
  "CHR 0xFF \<in> set (''a'' @ [CHR 0xFF]) \<and> esyscmd_buf init_buf init_buf (Some (''a'' @ [CHR 0xFF], True)) = None"
  using esyscmd_ff_fails [of "''a'' @ [CHR 0xFF]" init_buf init_buf True] by simp

theorem esyscmd_step_refines_witness:
  "bi_esyscmd (Some (''ok'', True)) (the (init_state Map.empty [] []))
     = Cont ((the (init_state Map.empty [] []))\<lparr>ins := (ins (the (init_state Map.empty [] [])))\<lparr>inp := ''ok''\<rparr>\<rparr>)"
proof -
  let ?st = "the (init_state Map.empty [] [])"
  have h: "stack_view init_buf = inp (ins ?st)" "length ''ok'' < 2 ^ 62"
    "unat (buf_i init_buf) + length ''ok'' \<le> 2 ^ 63"
    by (simp_all add: stack_view_def init_buf_def init_state_def)
  obtain b' t' where r: "esyscmd_buf init_buf init_buf (Some (''ok'', True)) = Some (b', t')"
    and v: "stack_view b' = ''ok''"
    using esyscmd_buf_ok [OF buf_ok_init buf_ok_init, of "''ok''"] h by (auto simp add: stack_view_def init_buf_def)
  from esyscmd_step_refines [OF buf_ok_init buf_ok_init h, of True] r v show ?thesis by simp
qed

end
