(* ===== verification/Spec2Isabelle.thy ===== *)
theory Spec2Isabelle
  imports EngineInv Scenarios Include Esyscmd
begin

text \<open>
  \<^bold>\<open>A verification model of the m4 macro processor of \<^verbatim>\<open>src/m4.c\<close>.\<close>

  The program is one C file. \<^verbatim>\<open>main\<close> registers the built-in macros in a hash
  table, loads the files named on the command line into the input buffer (or reads
  standard input), and runs a loop that reads one token at a time, keeps track of quotes,
  collects the arguments of macro calls on a stack of call frames, expands user macros by
  pushing their bodies back onto the input, and runs the built-ins. Output goes to the
  argument buffer of the innermost call or to the active diversion. All text lives in
  growable byte buffers (\<^verbatim>\<open>struct buf\<close>).

  \<^descr>[\<open>Prelude\<close>] the machine level: \<^verbatim>\<open>size_t\<close> as \<open>64 word\<close>, the overflow
    tests \<^verbatim>\<open>AOF\<close> and \<^verbatim>\<open>MOF\<close> with their exact meaning (\<open>AOF_iff\<close>,
    \<open>MOF_iff\<close>), promotion of a byte to a signed \<^verbatim>\<open>char\<close> (\<open>schar\<close>, so
    that byte 0xFF equals \<^verbatim>\<open>EOF\<close>), the \<^verbatim>\<open>ctype.h\<close> classes, and the
    evaluation rules (collection \<open>m4_eval\<close>) shared by the concrete runs.
  \<^descr>[\<open>Numeric\<close>] \<^verbatim>\<open>str_to_num\<close> and the \<^verbatim>\<open>%lu\<close> printing: the parser
    returns exactly the decimal value when it fits in 64 bits, printing then parsing is
    the identity.
  \<^descr>[\<open>SymTab\<close>] \<^verbatim>\<open>hash_str\<close> (djb2 on 64-bit words), \<^verbatim>\<open>lookup_entry\<close>,
    \<^verbatim>\<open>get_def\<close>, \<^verbatim>\<open>upsert_entry\<close>, \<^verbatim>\<open>delete_entry\<close>, \<^verbatim>\<open>htdist\<close>
    and the table of built-ins registered by \<^verbatim>\<open>main\<close>. The table is a function
    from bucket to chain; \<open>sym_map\<close> is its abstract view as a partial map and
    \<open>ht_ok\<close> its invariant. Upsert refines map update; delete refines map deletion for
    a name that is not a chain head, and at a chain head it empties the whole bucket, a
    defect of the source.
  \<^descr>[\<open>Input\<close>] the pushback input and \<^verbatim>\<open>getword\<close>. The input is a list in
    reading order (\<^verbatim>\<open>ungetch\<close> is \<open>Cons\<close>) with standard input behind it, read
    only when no file was named; a read returns \<open>Rd\<close>, \<open>RdEof\<close> or \<open>RdErr\<close>
    like the return value and error flag of \<^verbatim>\<open>getword\<close>. The lemmas show that
    \<^verbatim>\<open>getword\<close> returns the first token of the tokenization of the specification
    and leaves the rest (a round trip), that every token has the shape of a name or a
    single byte, and that no token contains byte 0xFF.
  \<^descr>[\<open>Buf\<close>] \<^verbatim>\<open>struct buf\<close> as an array, fill index and size, with
    \<^verbatim>\<open>init_buf\<close>, \<^verbatim>\<open>grow_buf\<close> (exactly when it fails), \<^verbatim>\<open>ungetch\<close>,
    \<^verbatim>\<open>ungetstr\<close>, \<^verbatim>\<open>getch\<close>, \<^verbatim>\<open>put_str\<close>, \<^verbatim>\<open>buf_dump_buf\<close> and
    \<^verbatim>\<open>delete_buf\<close>; refinement lemmas show that they implement the list operations
    on the views \<open>stack_view\<close> (the input) and \<open>text_view\<close> (output buffers) that
    the other theories use.
  \<^descr>[\<open>Include\<close>] \<^verbatim>\<open>filesize\<close> and \<^verbatim>\<open>include\<close> on the array buffer, its
    backwards write loop index by index: a file of the size \<^verbatim>\<open>stat\<close> reported is
    prepended to the input (the list model \<open>unget\<close> of the engine's \<^verbatim>\<open>include\<close>
    and start-up), another length is an error, and a file that grew by more than
    \<^verbatim>\<open>b->i\<close> bytes makes the loop write outside the array.
  \<^descr>[\<open>Esyscmd\<close>] the code compiled only with \<^verbatim>\<open>ESYSCMD_MAKETEMP\<close> set, with
    the operating system (\<^verbatim>\<open>popen\<close>, \<^verbatim>\<open>mkstemp\<close>, \<^verbatim>\<open>close\<close>) as
    parameters: \<^verbatim>\<open>esyscmd\<close> on the buffers, \<^verbatim>\<open>MAKETEMP\<close> and the extra
    built-in dispatch. The output of a successful command is read next without its NUL
    bytes, any 0xFF byte in it makes the call fail, and the engine-level built-in
    \<open>bi_esyscmd\<close> is proved to agree with the buffer code.
  \<^descr>[\<open>Builtins\<close>] the error values (one per fatal exit, with its message), the
    argument macro \<^verbatim>\<open>ARG\<close>, \<^verbatim>\<open>sub_args\<close>, \<^verbatim>\<open>strip_def\<close> and the
    computations of \<^verbatim>\<open>index\<close>, \<^verbatim>\<open>translit\<close>, \<^verbatim>\<open>substr\<close>,
    \<^verbatim>\<open>incr\<close> and the arithmetic built-ins, each against a reference definition.
    \<^verbatim>\<open>translit\<close> indexes its 255-slot map (\<^verbatim>\<open>int map[UCHAR_MAX]\<close>) with every
    byte of \<open>from\<close> and of the string; an index 0xFF, past the array in C, is the
    explicit failure \<open>TranslitOutOfRange\<close>, and its theorems assume no such byte.
  \<^descr>[\<open>Engine\<close>] the state of \<^verbatim>\<open>main\<close> as the record \<open>m4_state\<close>, the call
    frames (\<^verbatim>\<open>struct mcall\<close>) as \<open>mcall\<close>, the macros \<^verbatim>\<open>PROCESS_BI_WITH_ARGS\<close>
    and \<^verbatim>\<open>PROCESS_BI_NO_ARGS\<close> as \<open>bi_with_args\<close> and \<open>bi_no_args\<close>, one
    iteration of the main loop as \<open>m4_step\<close>, the label \<^verbatim>\<open>end_of_input\<close>, the
    whole program as \<open>m4_main\<close>, which returns exit status, standard output and
    standard error, the output selection \<^verbatim>\<open>SET_OUTPUT\<close> (\<open>set_output\<close>), the
    slots that \<^verbatim>\<open>terminate_args\<close> reads (one past the array for a call with nine
    arguments) and the slots that \<^verbatim>\<open>free_mcall\<close> and \<^verbatim>\<open>free_stack\<close> release.
  \<^descr>[\<open>EngineInv\<close>] the invariant of the loop state and its preservation by every
    step; it holds in every reachable state. For the well-formed frames it describes,
    \<^verbatim>\<open>free_stack\<close> releases every argument buffer exactly once.
  \<^descr>[\<open>Scenarios\<close>] runs of \<open>m4_main\<close> on the examples of the specification and on
    the inputs that show the defects, evaluated by \<open>simp\<close> (illustrations of the
    general theorems), and the proof that \<^verbatim>\<open>define(a,a)a\<close> runs for ever.
  \<^descr>[this theory] the properties that span the tokenizer and the engine: text
    without macros passes through unchanged, and an open quote consumes the rest of the
    input and ends the run with the quote error (both with the exact number of
    iterations, from the shared lemma \<open>run_copy\<close>); an identifier that runs into
    the end of the input is lost, a 0xFF byte ends the run (or fails the read, from
    standard input after a name), and a NUL byte is consumed as an empty token.

  \<^bold>\<open>Fuel.\<close> The main loop need not terminate (\<^verbatim>\<open>define(a,a)a\<close> expands for
  ever), so \<open>run\<close> takes a fuel bound and returns \<open>None\<close> when it runs out;
  \<open>m4_main n\<close> with a concrete \<open>n\<close> evaluates a run by \<open>simp\<close>. The scenario
  theorems state the result for a fuel that is large enough (one unit per loop
  iteration); \<open>run_mono\<close> shows that a larger fuel gives the same result, and the
  pass-through theorems give the fuel as one more than the length of the input.

  \<^bold>\<open>Not modelled.\<close> Memory allocation and its failures (every \<^verbatim>\<open>QUIT\<close> after a
  failed \<^verbatim>\<open>malloc\<close>/\<^verbatim>\<open>realloc\<close>/\<^verbatim>\<open>strdup\<close>) are left out: the engine's
  buffers are unbounded lists, justified by the refinement lemmas of \<open>Buf\<close>,
  \<open>Include\<close> and \<open>Esyscmd\<close> for sizes that fit; for the same reason
  \<^verbatim>\<open>init_entry\<close> (a zeroed allocation) is the record literal of
  \<open>upsert_entry\<close>. \<^verbatim>\<open>free_buf\<close> and \<^verbatim>\<open>free_hash_table\<close> only call
  \<^verbatim>\<open>free\<close> and have no other logic to model. The engine reads files from a map from
  names to contents and writes standard output without failure (\<^verbatim>\<open>fwrite\<close> errors in
  \<^verbatim>\<open>OUT_DIV\<close> are not modelled). The Windows branches (\<^verbatim>\<open>_mktemp_s\<close>, the
  backslash \<^verbatim>\<open>DIRSEP\<close>, binary mode on standard streams) are not modelled; the
  header comment and the includes at the top of the file hold no code.
\<close>

subsection \<open>Text without macros passes through\<close>

lemma undivert_all_empty:
  "diversion st = replicate 11 [] \<Longrightarrow> out (undivert_all st) = out st \<and> err (undivert_all st) = err st"
proof -
  have "\<forall>n \<in> set ns. n < 11 \<Longrightarrow> diversion st = replicate 11 [] \<Longrightarrow>
      out (fold out_div ns st) = out st \<and> err (fold out_div ns st) = err st
      \<and> diversion (fold out_div ns st) = replicate 11 []" for ns
    by (induction ns arbitrary: st) (simp_all add: out_div_def list_update_same_conv)
  then show "diversion st = replicate 11 [] \<Longrightarrow> ?thesis" by (simp add: undivert_all_def)
qed

text \<open>The loop on tokens that are only copied to diversion 0: quoted text, or text
  whose tokens are not macro names. Each iteration flushes diversion 0 and copies one
  token; the last one meets the end of the input.\<close>
lemma run_copy:
  assumes "stack st = []" and "act_div st = 0"
    and "diversion st = d # replicate 10 []"
    and "CHR 0x00 \<notin> set (stream (ins st))" and "CHR 0xFF \<notin> set (stream (ins st))"
    and "stream (ins st) = [] \<or> \<not> is_ident_char (last (stream (ins st)))"
    and "\<forall>t \<in> set (tokens (stream (ins st))). t \<noteq> [left_quote st] \<and> t \<noteq> [right_quote st]
           \<and> (quote_on st \<or> is_macro (ht st) t = None)"
  shows "\<exists>st'. run (Suc (length (stream (ins st)))) st = Some (end_of_input st')
    \<and> stack st' = [] \<and> quote_on st' = quote_on st \<and> diversion st' = replicate 11 []
    \<and> out st' = out st @ d @ stream (ins st) \<and> err st' = err st"
  using assms
proof (induction "length (stream (ins st))" arbitrary: st d rule: less_induct)
  case less
  show ?case
  proof (cases "stream (ins st) = []")
    case True
    let ?st0 = "out_div 0 st"
    have "getword (ins ?st0) = RdEof" using True by (simp add: out_div_def getword_Nil)
    then have "m4_step st = Eof ?st0" by (simp add: m4_step_def read_fail_def)
    moreover have "diversion ?st0 = replicate 11 []"
      using less.prems(3) by (simp add: out_div_def replicate_numeral_eval)
    moreover have "out ?st0 = out st @ d" "err ?st0 = err st" "stack ?st0 = []" "quote_on ?st0 = quote_on st"
      using less.prems(1,3) by (simp_all add: out_div_def)
    ultimately show ?thesis using True by auto
  next
    case False
    have lst: "\<not> is_ident_char (last (stream (ins st)))" using False less.prems(6) by simp
    obtain t i where gw: "getword (ins st) = Rd (t, i)" and sp: "stream (ins st) = t @ stream i"
      and tk: "tokens (stream (ins st)) = t # tokens (stream i)"
      using getword_tokens [OF less.prems(4) less.prems(5) False lst] by blast
    have tn: "t \<noteq> [left_quote st]" "t \<noteq> [right_quote st]" "quote_on st \<or> is_macro (ht st) t = None"
      using less.prems(7) tk by auto
    let ?st2 = "put_str t ((out_div 0 st)\<lparr>ins := i\<rparr>)"
    have step: "m4_step st = Cont ?st2"
      using gw tn less.prems(1) by (auto simp add: m4_step_def plain_token_def out_div_def Let_def)
    have st2: "stack ?st2 = []" "quote_on ?st2 = quote_on st" "act_div ?st2 = 0"
      "diversion ?st2 = t # replicate 10 []" "ins ?st2 = i" "ht ?st2 = ht st"
      "left_quote ?st2 = left_quote st" "right_quote ?st2 = right_quote st"
      "out ?st2 = out st @ d" "err ?st2 = err st"
      using less.prems(1-3) by (simp_all add: put_str_eq out_div_def)
    have lt: "length (stream i) < length (stream (ins st))"
      using getword_dec [OF gw] by (simp add: isize_stream)
    have "CHR 0x00 \<notin> set (stream i)" "CHR 0xFF \<notin> set (stream i)"
      using less.prems(4,5) sp by auto
    moreover have "stream i = [] \<or> \<not> is_ident_char (last (stream i))"
      using lst sp by (cases "stream i = []") auto
    moreover have "\<forall>t' \<in> set (tokens (stream i)). t' \<noteq> [left_quote st] \<and> t' \<noteq> [right_quote st]
        \<and> (quote_on st \<or> is_macro (ht st) t' = None)"
      using less.prems(7) tk by auto
    ultimately obtain st' where r: "run (Suc (length (stream i))) ?st2 = Some (end_of_input st')"
      and f: "stack st' = []" "quote_on st' = quote_on st" "diversion st' = replicate 11 []"
      and o: "out st' = out ?st2 @ t @ stream i" and e: "err st' = err ?st2"
      using less.hyps [of ?st2 t] lt st2 by auto
    have "run (length (stream (ins st))) ?st2 = Some (end_of_input st')"
      using run_mono [OF r] lt by simp
    then have "run (Suc (length (stream (ins st)))) st = Some (end_of_input st')" using step by simp
    with f o e st2 sp show ?thesis by auto
  qed
qed

text \<open>C2: the round-trip property of the specification (section 8): input without
  NUL and 0xFF bytes, which does not end inside an identifier and none of whose tokens is a
  macro name or a quote character, passes through to standard output byte for byte when
  no call is open and diversion 0 is active; the loop ends within one iteration per byte.\<close>
theorem passthrough:
  assumes "stack st = []" and "\<not> quote_on st" and "act_div st = 0"
    and "diversion st = d # replicate 10 []"
    and "CHR 0x00 \<notin> set (stream (ins st))" and "CHR 0xFF \<notin> set (stream (ins st))"
    and "stream (ins st) = [] \<or> \<not> is_ident_char (last (stream (ins st)))"
    and "\<forall>t \<in> set (tokens (stream (ins st))).
           is_macro (ht st) t = None \<and> t \<noteq> [left_quote st] \<and> t \<noteq> [right_quote st]"
  shows "\<exists>st'. run (Suc (length (stream (ins st)))) st = Some (Exit_ok st')
    \<and> out st' = out st @ d @ stream (ins st) \<and> err st' = err st"
proof -
  have "\<forall>t \<in> set (tokens (stream (ins st))). t \<noteq> [left_quote st] \<and> t \<noteq> [right_quote st]
      \<and> (quote_on st \<or> is_macro (ht st) t = None)"
    using assms(8) by auto
  from run_copy [OF assms(1,3-7) this] obtain st' where
    r: "run (Suc (length (stream (ins st)))) st = Some (end_of_input st')"
    and f: "stack st' = []" "quote_on st' = quote_on st" "diversion st' = replicate 11 []"
      "out st' = out st @ d @ stream (ins st)" "err st' = err st"
    by blast
  have "end_of_input st' = Exit_ok (undivert_all st')" using f assms(2) by (simp add: end_of_input_def)
  with r f undivert_all_empty [OF f(3)] show ?thesis by auto
qed

text \<open>C21: liveness of an open quote: with quoting on, every token up to the end of
  the input is copied unexpanded, macro names included, and the loop reaches the end of
  the input within one iteration per byte and exits with the error for unbalanced
  quotes, after flushing the copied text to standard output.\<close>
theorem open_quote_consumes_input:
  assumes "stack st = []" and "quote_on st" and "act_div st = 0"
    and "diversion st = d # replicate 10 []"
    and "CHR 0x00 \<notin> set (stream (ins st))" and "CHR 0xFF \<notin> set (stream (ins st))"
    and "stream (ins st) = [] \<or> \<not> is_ident_char (last (stream (ins st)))"
    and "\<forall>t \<in> set (tokens (stream (ins st))). t \<noteq> [left_quote st] \<and> t \<noteq> [right_quote st]"
  shows "\<exists>st'. run (Suc (length (stream (ins st)))) st = Some (Exit_fail QuotesNotExited st')
    \<and> out st' = out st @ d @ stream (ins st) \<and> err st' = err st"
proof -
  have "\<forall>t \<in> set (tokens (stream (ins st))). t \<noteq> [left_quote st] \<and> t \<noteq> [right_quote st]
      \<and> (quote_on st \<or> is_macro (ht st) t = None)"
    using assms(2,8) by auto
  from run_copy [OF assms(1,3-7) this] obtain st' where
    r: "run (Suc (length (stream (ins st)))) st = Some (end_of_input st')"
    and f: "stack st' = []" "quote_on st' = quote_on st"
      "out st' = out st @ d @ stream (ins st)" "err st' = err st"
    by blast
  have "end_of_input st' = Exit_fail QuotesNotExited st'" using f assms(2) by (simp add: end_of_input_def)
  with r f show ?thesis by auto
qed

subsection \<open>Input the tokenizer ends or drops\<close>

lemma m4_step_read_end:
  "getword (ins st) = r \<Longrightarrow> r = RdEof \<or> r = RdErr \<Longrightarrow> m4_step st = read_fail r (out_div 0 st)"
  by (auto simp add: m4_step_def out_div_def)

lemma put_str_Nil: "put_str [] st = st"
  by (simp add: put_str_eq split: list.splits)

text \<open>C32: an identifier that runs into the end of the input is lost: the iteration
  that reads it meets the end of input inside the name, so the loop goes to
  \<^verbatim>\<open>end_of_input\<close> with the state from before the name, whose bytes never reach any
  output; this for any fuel.\<close>
theorem trailing_identifier_lost:
  assumes "stream (ins st) = c # cs" and "is_ident_start c" and "list_all is_ident_char cs"
  shows "run (Suc n) st = Some (end_of_input (out_div 0 st))"
proof -
  have "getword (ins st) = RdEof" using assms by (rule getword_ident_end)
  then have "m4_step st = Eof (out_div 0 st)" by (simp add: m4_step_read_end read_fail_def)
  then show ?thesis by simp
qed

text \<open>C33: byte 0xFF ends the run: when it follows a (possibly empty) name prefix of
  the input, the iteration that reaches it goes to \<^verbatim>\<open>end_of_input\<close>, or, when it
  comes from standard input after a name, quits with a read error; either way the name
  and everything after the 0xFF are never processed.\<close>
theorem byte_ff_ends_run:
  assumes "stream (ins st) = t @ CHR 0xFF # rest" and "list_all is_ident_char t"
    and "t = [] \<or> is_ident_start (hd t)"
  shows "run (Suc n) st =
    Some (if t \<noteq> [] \<and> length (inp (ins st)) \<le> length t then Exit_fail ReadFailed (out_div 0 st)
          else end_of_input (out_div 0 st))"
proof -
  have g: "getword (ins st) = (if t \<noteq> [] \<and> length (inp (ins st)) \<le> length t then RdErr else RdEof)"
    using assms by (rule getword_ff)
  show ?thesis
  proof (cases "t \<noteq> [] \<and> length (inp (ins st)) \<le> length t")
    case True
    with g have "getword (ins st) = RdErr" by simp
    then have "m4_step st = Fail ReadFailed (out_div 0 st)" by (simp add: m4_step_read_end read_fail_def)
    with True show ?thesis by simp
  next
    case False
    with g have "getword (ins st) = RdEof" by simp
    then have "m4_step st = Eof (out_div 0 st)" by (simp add: m4_step_read_end read_fail_def)
    with False show ?thesis by (simp only: run.simps step_res.case if_False)
  qed
qed

text \<open>C34: a NUL byte is read as the empty token (the C string ends at once) and
  dropped: the iteration consumes it and changes nothing but the input, in or out of
  quotes and inside a call alike.\<close>
theorem nul_byte_dropped:
  assumes "stream (ins st) = CHR 0x00 # rest"
  shows "\<exists>i. m4_step st = Cont ((out_div 0 st)\<lparr>ins := i\<rparr>) \<and> stream i = rest"
proof -
  obtain i where g: "getword (ins st) = Rd ([], i)" and s: "stream i = rest"
    using getword_nul [OF assms] by blast
  have "is_macro (ht st) [] = None" by (simp add: is_macro_def)
  then have "m4_step st = Cont ((out_div 0 st)\<lparr>ins := i\<rparr>)"
    using g by (simp add: m4_step_def out_div_def plain_token_def put_str_Nil Let_def split: list.splits)
  with s show ?thesis by blast
qed

theorem passthrough_witness:
  "m4_main 13 Map.empty [] ''hello world\<newline>'' = Some (0, ''hello world\<newline>'', [])"
proof -
  obtain s0 where i: "init_state Map.empty [] ''hello world\<newline>'' = Some s0"
    by (simp add: init_state_def)
  then have f: "stack s0 = []" "\<not> quote_on s0" "act_div s0 = 0" "diversion s0 = [] # replicate 10 []"
    "stream (ins s0) = ''hello world\<newline>''" "ht s0 = init_ht" "left_quote s0 = CHR ''`''"
    "right_quote s0 = CHR 0x27" "out s0 = []" "err s0 = []"
    by (auto simp add: init_state_def stream_def replicate_numeral_eval)
  have tk: "\<forall>t \<in> set (tokens ''hello world\<newline>'').
      is_macro init_ht t = None \<and> t \<noteq> [CHR ''`''] \<and> t \<noteq> [CHR 0x27]"
    by (simp add: m4_eval)
  have p5: "CHR 0x00 \<notin> set (stream (ins s0))" and p6: "CHR 0xFF \<notin> set (stream (ins s0))"
    and p7: "stream (ins s0) = [] \<or> \<not> is_ident_char (last (stream (ins s0)))"
    by (simp_all add: f m4_eval)
  have p8: "\<forall>t \<in> set (tokens (stream (ins s0))).
      is_macro (ht s0) t = None \<and> t \<noteq> [left_quote s0] \<and> t \<noteq> [right_quote s0]"
    using tk by (simp only: f)
  from passthrough [OF f(1-4) p5 p6 p7 p8] obtain st' where
    r: "run (Suc (length (stream (ins s0)))) s0 = Some (Exit_ok st')"
    and o: "out st' = out s0 @ [] @ stream (ins s0)" and e: "err st' = err s0"
    by blast
  have n13: "Suc (length (stream (ins s0))) = 13" by (simp add: f)
  from r have "run 13 s0 = Some (Exit_ok st')" by (simp only: n13)
  with i o e f show ?thesis by (simp add: m4_main_def del: run.simps)
qed

theorem open_quote_consumes_input_witness:
  "\<exists>st'. run 7 ((the (init_state Map.empty [] ''dnl x\<newline>''))\<lparr>quote_on := True\<rparr>)
     = Some (Exit_fail QuotesNotExited st') \<and> out st' = ''dnl x\<newline>''"
proof -
  let ?s0 = "(the (init_state Map.empty [] ''dnl x\<newline>''))\<lparr>quote_on := True\<rparr>"
  have f: "stack ?s0 = []" "quote_on ?s0" "act_div ?s0 = 0" "diversion ?s0 = [] # replicate 10 []"
    "stream (ins ?s0) = ''dnl x\<newline>''" "left_quote ?s0 = CHR ''`''"
    "right_quote ?s0 = CHR 0x27" "out ?s0 = []"
    by (simp_all add: init_state_def stream_def replicate_numeral_eval)
  have tk: "\<forall>t \<in> set (tokens ''dnl x\<newline>''). t \<noteq> [CHR ''`''] \<and> t \<noteq> [CHR 0x27]"
    by (simp add: m4_eval)
  have p5: "CHR 0x00 \<notin> set (stream (ins ?s0))" and p6: "CHR 0xFF \<notin> set (stream (ins ?s0))"
    and p7: "stream (ins ?s0) = [] \<or> \<not> is_ident_char (last (stream (ins ?s0)))"
    unfolding f(5) by (simp_all add: m4_eval)
  have p8: "\<forall>t \<in> set (tokens (stream (ins ?s0))). t \<noteq> [left_quote ?s0] \<and> t \<noteq> [right_quote ?s0]"
    using tk by (simp only: f)
  from open_quote_consumes_input [OF f(1-4) p5 p6 p7 p8] obtain st' where
    r: "run (Suc (length (stream (ins ?s0)))) ?s0 = Some (Exit_fail QuotesNotExited st')"
    and o: "out st' = out ?s0 @ [] @ stream (ins ?s0)"
    by blast
  have n7: "Suc (length (stream (ins ?s0))) = 7" unfolding f(5) by simp
  from r have "run 7 ?s0 = Some (Exit_fail QuotesNotExited st')" by (simp only: n7)
  with o f show ?thesis by auto
qed

theorem trailing_identifier_lost_witness:
  "run 1 (the (init_state Map.empty [] ''hi'')) = Some (end_of_input (out_div 0 (the (init_state Map.empty [] ''hi''))))"
proof -
  have h: "stream (ins (the (init_state Map.empty [] ''hi''))) = CHR ''h'' # ''i''"
    "is_ident_start (CHR ''h'')" "list_all is_ident_char ''i''"
    by (simp_all add: init_state_def stream_def m4_eval)
  from trailing_identifier_lost [OF h, of 0] show ?thesis by simp
qed

theorem byte_ff_ends_run_witness:
  "run 1 (the (init_state Map.empty [] (''ab'' @ [CHR 0xFF] @ ''c''))) =
     Some (Exit_fail ReadFailed (out_div 0 (the (init_state Map.empty [] (''ab'' @ [CHR 0xFF] @ ''c'')))))"
proof -
  let ?st = "the (init_state Map.empty [] (''ab'' @ [CHR 0xFF] @ ''c''))"
  have h: "stream (ins ?st) = ''ab'' @ CHR 0xFF # ''c''" "list_all is_ident_char ''ab''"
    "''ab'' = [] \<or> is_ident_start (hd ''ab'')"
    by (simp_all add: init_state_def stream_def m4_eval)
  have l: "''ab'' \<noteq> [] \<and> length (inp (ins ?st)) \<le> length ''ab''" by (simp add: init_state_def)
  from byte_ff_ends_run [OF h, of 0] l show ?thesis by simp
qed

theorem nul_byte_dropped_witness:
  "\<exists>i. m4_step (the (init_state Map.empty [] (CHR 0x00 # ''x''))) =
     Cont ((out_div 0 (the (init_state Map.empty [] (CHR 0x00 # ''x''))))\<lparr>ins := i\<rparr>) \<and> stream i = ''x''"
proof -
  have h: "stream (ins (the (init_state Map.empty [] (CHR 0x00 # ''x'')))) = CHR 0x00 # ''x''"
    by (simp add: init_state_def stream_def)
  show ?thesis using nul_byte_dropped [OF h] .
qed

end
